theory Spec2Isabelle
  imports Complex_Main
begin

section \<open>Monte Carlo pricing of exotic options: the model in exact arithmetic\<close>

text \<open>
  The notebook \<^verbatim>\<open>Exotic Options.ipynb\<close> is a sequence of cells over global variables.
  Every assignment of a cell is embedded as one definition that carries the name of the
  assigned variable and takes the variables it reads as arguments. Python's \<^verbatim>\<open>int\<close> is
  \<^typ>\<open>int\<close>, arrays are lists, a matrix is the list of its rows.

  The cells are embedded twice. The first model computes in exact arithmetic on
  \<^typ>\<open>real\<close>: it gives the formula of each computed quantity, from which the notebook's
  float64 value differs by rounding. The second model, further down, computes in float64
  and is used where rounding, underflow or overflow decides the outcome.

  Outcomes that are no real number are values of both models: an exception raised by
  Python or numpy, and \<open>NonFinite\<close> where numpy returns \<^verbatim>\<open>nan\<close> or \<^verbatim>\<open>inf\<close> with a
  RuntimeWarning (a float divided by zero, the square root of a negative number, the
  mean of an empty array, an overflow).
\<close>

datatype failure = ZeroDivisionError | ValueError | IndexError | NameError | NonFinite

subsection \<open>The parameters (first code cell)\<close>

text \<open>
  \<^verbatim>\<open>
  spot_price = 100
  strike_price = 105
  Time = 1
  risk_free_rate = 0.05
  sigma = 0.2
  simulations = 100000
  Time_steps = 100
  \<close>
\<close>

record parameters =
  spot_price :: real
  strike_price :: real
  Time :: real
  risk_free_rate :: real
  sigma :: real
  simulations :: int
  Time_steps :: int

definition notebook_parameters :: parameters where
  "notebook_parameters =
     \<lparr>spot_price = 100, strike_price = 105, Time = 1, risk_free_rate = 1 / 20,
      sigma = 1 / 5, simulations = 100000, Time_steps = 100\<rparr>"

subsection \<open>Simulating the price paths (first code cell)\<close>

text \<open>
  \<^verbatim>\<open>dt = Time / Time_steps\<close>:
  Python's true division of two numbers raises ZeroDivisionError on a zero divisor.
\<close>

definition dt :: "real \<Rightarrow> int \<Rightarrow> failure + real" where
  "dt T M = (if M = 0 then Inl ZeroDivisionError else Inr (T / real_of_int M))"

text \<open>
  \<^verbatim>\<open>random = np.random.normal(size=(simulations, Time_steps))\<close>:
  the generator is a parameter of the model, \<open>Z i j\<close> being the draw for row \<open>i\<close>
  and column \<open>j\<close>. numpy raises ValueError for a negative dimension.
\<close>

definition random_normal :: "(nat \<Rightarrow> nat \<Rightarrow> real) \<Rightarrow> int \<Rightarrow> int \<Rightarrow> failure + real list list" where
  "random_normal Z N M =
     (if N < 0 \<or> M < 0 then Inl ValueError
      else Inr (map (\<lambda>i. map (Z i) [0..<nat M]) [0..<nat N]))"

text \<open>
  \<^verbatim>\<open>ratio_matrix = np.exp((risk_free_rate - sigma * sigma / 2) * dt
                             + sigma * random * np.sqrt(dt))\<close>:
  \<^verbatim>\<open>np.sqrt\<close> of a negative \<open>dt\<close> is \<^verbatim>\<open>nan\<close>, and then so is every entry of the matrix.
\<close>

definition ratio_matrix :: "real \<Rightarrow> real \<Rightarrow> real \<Rightarrow> real list list \<Rightarrow> failure + real list list" where
  "ratio_matrix r s d R =
     (if d < 0 \<and> concat R \<noteq> [] then Inl NonFinite
      else Inr (map (map (\<lambda>z. exp ((r - s * s / 2) * d + s * z * sqrt d))) R))"

text \<open>\<^verbatim>\<open>np.cumprod\<close> of one row: the running product, entry \<open>j\<close> the product of entries \<open>0..j\<close>.\<close>

fun cumprod_from :: "real \<Rightarrow> real list \<Rightarrow> real list" where
  "cumprod_from a [] = []"
| "cumprod_from a (x # xs) = (a * x) # cumprod_from (a * x) xs"

definition cumprod :: "real list \<Rightarrow> real list" where
  "cumprod xs = cumprod_from 1 xs"

text \<open>\<^verbatim>\<open>prices = spot_price * np.cumprod(ratio_matrix, axis=1)\<close>, and the whole cell.\<close>

definition scale_cumprod :: "real \<Rightarrow> real list list \<Rightarrow> real list list" where
  "scale_cumprod S Q = map (\<lambda>row. map (\<lambda>c. S * c) (cumprod row)) Q"

definition prices :: "parameters \<Rightarrow> (nat \<Rightarrow> nat \<Rightarrow> real) \<Rightarrow> failure + real list list" where
  "prices p Z =
     (case dt (Time p) (Time_steps p) of
        Inl e \<Rightarrow> Inl e
      | Inr d \<Rightarrow>
          (case random_normal Z (simulations p) (Time_steps p) of
             Inl e \<Rightarrow> Inl e
           | Inr R \<Rightarrow>
               (case ratio_matrix (risk_free_rate p) (sigma p) d R of
                  Inl e \<Rightarrow> Inl e
                | Inr Q \<Rightarrow> Inr (scale_cumprod (spot_price p) Q))))"

text \<open>The draws that are all zero (every path then follows the deterministic drift).\<close>

definition zero_draws :: "nat \<Rightarrow> nat \<Rightarrow> real" where
  "zero_draws i j = 0"

subsection \<open>Reductions of numpy used by the evaluators\<close>

text \<open>
  \<^verbatim>\<open>np.mean(a)\<close> of a one-dimensional array and \<^verbatim>\<open>np.mean(a, axis=1)\<close> of a matrix:
  the mean of an empty slice is \<^verbatim>\<open>nan\<close>.
\<close>

definition np_mean :: "real list \<Rightarrow> failure + real" where
  "np_mean xs = (if xs = [] then Inl NonFinite else Inr (sum_list xs / real (length xs)))"

definition mean_axis1 :: "real list list \<Rightarrow> failure + real list" where
  "mean_axis1 P =
     (if [] \<in> set P then Inl NonFinite
      else Inr (map (\<lambda>row. sum_list row / real (length row)) P))"

text \<open>\<^verbatim>\<open>np.amax(a, axis=1)\<close>: the maximum of an empty row raises ValueError.\<close>

definition amax_axis1 :: "real list list \<Rightarrow> failure + real list" where
  "amax_axis1 P =
     (if [] \<in> set P then Inl ValueError else Inr (map (\<lambda>row. Max (set row)) P))"

text \<open>
  The loop \<^verbatim>\<open>total = 0; for i in idx: total += A[i][-1]\<close> of the barrier and chooser
  cells: \<open>A[i]\<close> raises IndexError past the last row, \<open>[-1]\<close> on an empty row.
\<close>

fun sum_final :: "real list list \<Rightarrow> nat list \<Rightarrow> real \<Rightarrow> failure + real" where
  "sum_final A [] acc = Inr acc"
| "sum_final A (i # idx) acc =
     (if i < length A \<and> A ! i \<noteq> [] then sum_final A idx (acc + last (A ! i))
      else Inl IndexError)"

subsection \<open>Asian option\<close>

text \<open>\<^verbatim>\<open>payoffs = np.maximum(0, np.mean(prices, axis=1) - strike_price)\<close>\<close>

definition payoffs_Asian :: "real list list \<Rightarrow> real \<Rightarrow> failure + real list" where
  "payoffs_Asian P K =
     (case mean_axis1 P of Inl e \<Rightarrow> Inl e | Inr ms \<Rightarrow> Inr (map (\<lambda>m. max 0 (m - K)) ms))"

text \<open>\<^verbatim>\<open>Asian_Option_call_price = np.mean(payoffs)*np.exp(-risk_free_rate*Time)\<close>\<close>

definition Asian_Option_call_price :: "real list \<Rightarrow> real \<Rightarrow> real \<Rightarrow> failure + real" where
  "Asian_Option_call_price payoffs r T =
     (case np_mean payoffs of Inl e \<Rightarrow> Inl e | Inr m \<Rightarrow> Inr (m * exp (- r * T)))"

text \<open>\<^verbatim>\<open>var_matrix = np.power((payoffs - Asian_Option_call_price),2)\<close>\<close>

definition var_matrix :: "real list \<Rightarrow> real \<Rightarrow> real list" where
  "var_matrix payoffs c = map (\<lambda>x. (x - c)\<^sup>2) payoffs"

text \<open>
  \<^verbatim>\<open>variance = np.sum(var_matrix)/(simulations-1)\<close>:
  a numpy float divided by zero is \<^verbatim>\<open>inf\<close> or \<^verbatim>\<open>nan\<close>.
\<close>

definition variance :: "real list \<Rightarrow> int \<Rightarrow> failure + real" where
  "variance vm N =
     (if N - 1 = 0 then Inl NonFinite else Inr (sum_list vm / real_of_int (N - 1)))"

text \<open>\<^verbatim>\<open>standard_error = np.sqrt(variance/simulations)\<close>\<close>

definition standard_error :: "real \<Rightarrow> int \<Rightarrow> failure + real" where
  "standard_error v N =
     (if N = 0 \<or> v / real_of_int N < 0 then Inl NonFinite
      else Inr (sqrt (v / real_of_int N)))"

text \<open>
  The three statistics the cell computes from the payoff vector:
  the price, the variance and the standard error.
\<close>

definition pricing_result :: "real list \<Rightarrow> real \<Rightarrow> real \<Rightarrow> int \<Rightarrow> failure + real \<times> real \<times> real" where
  "pricing_result payoffs r T N =
     (case Asian_Option_call_price payoffs r T of
        Inl e \<Rightarrow> Inl e
      | Inr c \<Rightarrow>
          (case variance (var_matrix payoffs c) N of
             Inl e \<Rightarrow> Inl e
           | Inr v \<Rightarrow>
               (case standard_error v N of
                  Inl e \<Rightarrow> Inl e
                | Inr se \<Rightarrow> Inr (c, v, se))))"

subsection \<open>Chooser option\<close>

text \<open>
  \<^verbatim>\<open>
  choosercallpayoffs = np.maximum(0, prices - strike_price)
  sum1 = 0
  for i in range(simulations):
      sum1 += choosercallpayoffs[i][-1]
  sum2 = 0
  chooserputpayoffs = np.maximum(0, strike_price - prices)
  for i in range(simulations):
      sum2 += chooserputpayoffs[i][-1]
  chooser_option_price = np.maximum(sum1,sum2)/simulations
  \<close>
  \<^verbatim>\<open>np.maximum\<close> returns a numpy scalar, whose division by zero is \<^verbatim>\<open>nan\<close> or \<^verbatim>\<open>inf\<close>.
\<close>

definition choosercallpayoffs :: "real list list \<Rightarrow> real \<Rightarrow> real list list" where
  "choosercallpayoffs P K = map (map (\<lambda>x. max 0 (x - K))) P"

definition chooserputpayoffs :: "real list list \<Rightarrow> real \<Rightarrow> real list list" where
  "chooserputpayoffs P K = map (map (\<lambda>x. max 0 (K - x))) P"

definition sum1 :: "real list list \<Rightarrow> real \<Rightarrow> int \<Rightarrow> failure + real" where
  "sum1 P K N = sum_final (choosercallpayoffs P K) [0..<nat N] 0"

definition sum2 :: "real list list \<Rightarrow> real \<Rightarrow> int \<Rightarrow> failure + real" where
  "sum2 P K N = sum_final (chooserputpayoffs P K) [0..<nat N] 0"

definition chooser_option_price :: "real list list \<Rightarrow> real \<Rightarrow> int \<Rightarrow> failure + real" where
  "chooser_option_price P K N =
     (case sum1 P K N of
        Inl e \<Rightarrow> Inl e
      | Inr s1 \<Rightarrow>
          (case sum2 P K N of
             Inl e \<Rightarrow> Inl e
           | Inr s2 \<Rightarrow>
               (if N = 0 then Inl NonFinite else Inr (max s1 s2 / real_of_int N))))"

subsection \<open>Range statistics\<close>

text \<open>
  \<^verbatim>\<open>
  percentile_of_95 = percentileofscore(prices, 95)
  percentile_of_105 = percentileofscore(prices, 105)
  \<close>
  \<^verbatim>\<open>scipy.stats.percentileofscore(a, score)\<close> with its default kind \<^verbatim>\<open>'rank'\<close> takes
  \<^verbatim>\<open>n = len(a)\<close>, counts along the last axis of \<open>a\<close> the entries below the score
  (\<open>left\<close>) and the entries not above it (\<open>right\<close>), and returns
  \<^verbatim>\<open>(left + right + (left < right)) * (50.0 / n)\<close>. For the matrix \<open>prices\<close> the length
  \<open>n\<close> is the number of rows and the counts are taken row by row, so the result is an
  array with one entry per row: the cell's recorded output is
  \<^verbatim>\<open>[0.057 0.028 0.    ... 0.014 0.047 0.031]\<close>, multiples of \<open>100 / simulations\<close>.
  For an empty \<open>a\<close> the result is \<^verbatim>\<open>nan\<close>.
\<close>

definition percentileofscore :: "real list list \<Rightarrow> real \<Rightarrow> failure + real list" where
  "percentileofscore a score =
     (if a = [] then Inl NonFinite
      else Inr (map (\<lambda>row.
                  let left = length (filter (\<lambda>x. x < score) row);
                      right = length (filter (\<lambda>x. x \<le> score) row);
                      plus1 = (if left < right then 1 else 0)
                  in real (left + right + plus1) * (50 / real (length a))) a))"

text \<open>
  The percentile rank as the specification words it: the rank of the level in the
  empirical distribution of the matrix flattened across all rows and columns, a single
  number (same ranking rule, over all entries).
\<close>

definition flattened_percentile_rank :: "real list list \<Rightarrow> real \<Rightarrow> failure + real" where
  "flattened_percentile_rank a score =
     (let xs = concat a;
          left = length (filter (\<lambda>x. x < score) xs);
          right = length (filter (\<lambda>x. x \<le> score) xs);
          plus1 = (if left < right then 1 else 0)
      in if xs = [] then Inl NonFinite
         else Inr (real (left + right + plus1) * (50 / real (length xs))))"

section \<open>The float64 model\<close>

text \<open>
  Where a claim turns on a comparison, on a count or on the sign of a value, rounding,
  underflow and overflow decide what the notebook computes. This second model follows the
  same cells with IEEE 754 binary64 arithmetic: a finite float64 value is the real number it
  denotes, every operation returns the exact result rounded to the nearest float64 value,
  ties to even, and an operation whose result is \<^verbatim>\<open>inf\<close> or \<^verbatim>\<open>nan\<close> has the outcome
  \<open>NonFinite\<close>; what numpy derives from such a value is not followed further. The
  parameters, the draws and the prices are taken to be float64 values (Python integers
  below \<open>2\<^sup>5\<^sup>3\<close> included). \<^verbatim>\<open>np.sqrt\<close> is correctly rounded; \<^verbatim>\<open>np.exp\<close> is taken to be.
\<close>

subsection \<open>Rounding to float64\<close>

text \<open>Rounding a real number to the nearest integer, a tie to the even one.\<close>

definition rne :: "real \<Rightarrow> int" where
  "rne x =
     (let f = \<lfloor>x\<rfloor>; d = x - of_int f
      in if d < 1 / 2 then f else if 1 / 2 < d then f + 1 else if even f then f else f + 1)"

text \<open>
  The binary exponent of a number, not below that of the smallest normal number, and the
  spacing of the float64 values at that exponent (52 fraction bits).
\<close>

definition exponent64 :: "real \<Rightarrow> int" where
  "exponent64 x = max \<lfloor>log 2 \<bar>x\<bar>\<rfloor> (- 1022)"

definition ulp64 :: "real \<Rightarrow> real" where
  "ulp64 x = 2 powi (exponent64 x - 52)"

definition round64 :: "real \<Rightarrow> real" where
  "round64 x = (if x = 0 then 0 else of_int (rne (x / ulp64 x)) * ulp64 x)"

text \<open>The smallest positive float64 value, \<open>2\<^sup>-\<^sup>1\<^sup>0\<^sup>7\<^sup>4\<close>.\<close>

definition min_subnormal :: real where
  "min_subnormal = 2 powi (- 1074)"

text \<open>
  The float64 result of an operation whose exact result is \<open>x\<close>: the rounded value, or
  \<^verbatim>\<open>inf\<close> when its magnitude reaches \<open>2\<^sup>1\<^sup>0\<^sup>2\<^sup>4\<close>.
\<close>

definition f64 :: "real \<Rightarrow> failure + real" where
  "f64 x = (if 2 ^ 1024 \<le> \<bar>round64 x\<bar> then Inl NonFinite else Inr (round64 x))"

text \<open>Sequencing of operations, and an operation applied to every entry of an array.\<close>

definition then_f64 :: "failure + 'a \<Rightarrow> ('a \<Rightarrow> failure + 'b) \<Rightarrow> failure + 'b" where
  "then_f64 m k = (case m of Inl e \<Rightarrow> Inl e | Inr x \<Rightarrow> k x)"

fun map_f64 :: "('a \<Rightarrow> failure + 'b) \<Rightarrow> 'a list \<Rightarrow> failure + 'b list" where
  "map_f64 f [] = Inr []"
| "map_f64 f (x # xs) = then_f64 (f x) (\<lambda>y. then_f64 (map_f64 f xs) (\<lambda>ys. Inr (y # ys)))"

subsection \<open>Sums of an array\<close>

text \<open>
  \<^verbatim>\<open>np.sum\<close> and \<^verbatim>\<open>np.mean\<close> add the entries of a contiguous row by numpy's pairwise
  summation: fewer than 8 entries are added one after the other; up to 128 entries are
  added into 8 accumulators, which are combined as
  \<^verbatim>\<open>((r0 + r1) + (r2 + r3)) + ((r4 + r5) + (r6 + r7))\<close> before the entries left over are
  added; a longer array is split at half its length, rounded down to a multiple of 8.
\<close>

fun sum_loop_f64 :: "real \<Rightarrow> real list \<Rightarrow> failure + real" where
  "sum_loop_f64 res [] = Inr res"
| "sum_loop_f64 res (x # xs) = then_f64 (f64 (res + x)) (\<lambda>res'. sum_loop_f64 res' xs)"

fun accumulate8_f64 :: "real list \<Rightarrow> real list \<Rightarrow> failure + real list" where
  "accumulate8_f64 r a =
     (if length a < 8 then Inr r
      else then_f64 (map_f64 (\<lambda>(x, y). f64 (x + y)) (zip r (take 8 a)))
             (\<lambda>r'. accumulate8_f64 r' (drop 8 a)))"

definition combine8_f64 :: "real list \<Rightarrow> failure + real" where
  "combine8_f64 r =
     then_f64 (f64 (r ! 0 + r ! 1)) (\<lambda>a.
     then_f64 (f64 (r ! 2 + r ! 3)) (\<lambda>b.
     then_f64 (f64 (r ! 4 + r ! 5)) (\<lambda>c.
     then_f64 (f64 (r ! 6 + r ! 7)) (\<lambda>d.
     then_f64 (f64 (a + b)) (\<lambda>ab.
     then_f64 (f64 (c + d)) (\<lambda>cd. f64 (ab + cd)))))))"

function pairwise_sum_f64 :: "real list \<Rightarrow> failure + real" where
  "pairwise_sum_f64 a =
     (let n = length a in
      if n < 8 then sum_loop_f64 0 a
      else if n \<le> 128 then
        then_f64 (accumulate8_f64 (take 8 a) (drop 8 a)) (\<lambda>r.
        then_f64 (combine8_f64 r) (\<lambda>res. sum_loop_f64 res (drop (n - n mod 8) a)))
      else
        then_f64 (pairwise_sum_f64 (take (n div 2 - n div 2 mod 8) a)) (\<lambda>x.
        then_f64 (pairwise_sum_f64 (drop (n div 2 - n div 2 mod 8) a)) (\<lambda>y. f64 (x + y))))"
  by pat_completeness auto
termination
  by (relation "measure length") (auto simp add: Let_def)

text \<open>\<^verbatim>\<open>np.mean\<close>: the sum divided by the number of entries; \<^verbatim>\<open>nan\<close> for no entries.\<close>

definition np_mean_f64 :: "real list \<Rightarrow> failure + real" where
  "np_mean_f64 xs =
     (if xs = [] then Inl NonFinite
      else then_f64 (pairwise_sum_f64 xs) (\<lambda>s. f64 (s / real (length xs))))"

definition mean_axis1_f64 :: "real list list \<Rightarrow> failure + real list" where
  "mean_axis1_f64 P = (if [] \<in> set P then Inl NonFinite else map_f64 np_mean_f64 P)"

text \<open>The discount factor \<^verbatim>\<open>np.exp(-risk_free_rate*Time)\<close>.\<close>

definition discount_f64 :: "real \<Rightarrow> real \<Rightarrow> failure + real" where
  "discount_f64 r T = then_f64 (f64 (- r * T)) (\<lambda>x. f64 (exp x))"

subsection \<open>Simulating the price paths in float64\<close>

definition dt_f64 :: "real \<Rightarrow> int \<Rightarrow> failure + real" where
  "dt_f64 T M = (if M = 0 then Inl ZeroDivisionError else f64 (T / real_of_int M))"

text \<open>
  One entry of \<open>ratio_matrix\<close>, for the draw \<open>z\<close>:
  \<^verbatim>\<open>np.exp((risk_free_rate - sigma * sigma / 2) * dt + sigma * random * np.sqrt(dt))\<close>,
  every operation in the order Python evaluates it.
\<close>

definition drift_f64 :: "real \<Rightarrow> real \<Rightarrow> real \<Rightarrow> failure + real" where
  "drift_f64 r s d =
     then_f64 (f64 (s * s)) (\<lambda>ss.
     then_f64 (f64 (ss / 2)) (\<lambda>h.
     then_f64 (f64 (r - h)) (\<lambda>a. f64 (a * d))))"

definition ratio_f64 :: "real \<Rightarrow> real \<Rightarrow> real \<Rightarrow> real \<Rightarrow> failure + real" where
  "ratio_f64 r s d z =
     (if d < 0 then Inl NonFinite
      else
        then_f64 (drift_f64 r s d) (\<lambda>a.
        then_f64 (f64 (s * z)) (\<lambda>sz.
        then_f64 (f64 (sqrt d)) (\<lambda>sd.
        then_f64 (f64 (sz * sd)) (\<lambda>b.
        then_f64 (f64 (a + b)) (\<lambda>x. f64 (exp x)))))))"

definition ratio_matrix_f64 :: "real \<Rightarrow> real \<Rightarrow> real \<Rightarrow> real list list \<Rightarrow> failure + real list list" where
  "ratio_matrix_f64 r s d R = map_f64 (map_f64 (ratio_f64 r s d)) R"

text \<open>\<^verbatim>\<open>np.cumprod\<close> of one row: the first entry is copied, each further one is a rounded product.\<close>

fun cumprod_from_f64 :: "real \<Rightarrow> real list \<Rightarrow> failure + real list" where
  "cumprod_from_f64 a [] = Inr []"
| "cumprod_from_f64 a (x # xs) =
     then_f64 (f64 (a * x)) (\<lambda>y. then_f64 (cumprod_from_f64 y xs) (\<lambda>ys. Inr (y # ys)))"

definition cumprod_f64 :: "real list \<Rightarrow> failure + real list" where
  "cumprod_f64 xs =
     (case xs of [] \<Rightarrow> Inr []
      | x # xs' \<Rightarrow> then_f64 (cumprod_from_f64 x xs') (\<lambda>ys. Inr (x # ys)))"

definition scale_cumprod_f64 :: "real \<Rightarrow> real list list \<Rightarrow> failure + real list list" where
  "scale_cumprod_f64 S Q =
     map_f64 (\<lambda>row. then_f64 (cumprod_f64 row) (map_f64 (\<lambda>c. f64 (S * c)))) Q"

definition prices_f64 :: "parameters \<Rightarrow> (nat \<Rightarrow> nat \<Rightarrow> real) \<Rightarrow> failure + real list list" where
  "prices_f64 p Z =
     (case dt_f64 (Time p) (Time_steps p) of
        Inl e \<Rightarrow> Inl e
      | Inr d \<Rightarrow>
          (case random_normal Z (simulations p) (Time_steps p) of
             Inl e \<Rightarrow> Inl e
           | Inr R \<Rightarrow>
               then_f64 (ratio_matrix_f64 (risk_free_rate p) (sigma p) d R)
                 (scale_cumprod_f64 (spot_price p))))"

subsection \<open>The evaluators in float64\<close>

text \<open>Asian option: the payoffs, and the price, variance and standard error.\<close>

definition payoffs_Asian_f64 :: "real list list \<Rightarrow> real \<Rightarrow> failure + real list" where
  "payoffs_Asian_f64 P K =
     then_f64 (mean_axis1_f64 P)
       (map_f64 (\<lambda>m. then_f64 (f64 (m - K)) (\<lambda>x. Inr (max 0 x))))"

definition Asian_Option_call_price_f64 :: "real list \<Rightarrow> real \<Rightarrow> real \<Rightarrow> failure + real" where
  "Asian_Option_call_price_f64 payoffs r T =
     then_f64 (np_mean_f64 payoffs) (\<lambda>m.
     then_f64 (discount_f64 r T) (\<lambda>d. f64 (m * d)))"

definition var_matrix_f64 :: "real list \<Rightarrow> real \<Rightarrow> failure + real list" where
  "var_matrix_f64 payoffs c =
     map_f64 (\<lambda>x. then_f64 (f64 (x - c)) (\<lambda>y. f64 (y * y))) payoffs"

definition variance_f64 :: "real list \<Rightarrow> int \<Rightarrow> failure + real" where
  "variance_f64 vm N =
     then_f64 (pairwise_sum_f64 vm) (\<lambda>s.
       if N - 1 = 0 then Inl NonFinite else f64 (s / real_of_int (N - 1)))"

definition standard_error_f64 :: "real \<Rightarrow> int \<Rightarrow> failure + real" where
  "standard_error_f64 v N =
     (if N = 0 then Inl NonFinite
      else then_f64 (f64 (v / real_of_int N)) (\<lambda>q.
             if q < 0 then Inl NonFinite else f64 (sqrt q)))"

definition pricing_result_f64 :: "real list \<Rightarrow> real \<Rightarrow> real \<Rightarrow> int \<Rightarrow> failure + real \<times> real \<times> real" where
  "pricing_result_f64 payoffs r T N =
     then_f64 (Asian_Option_call_price_f64 payoffs r T) (\<lambda>c.
     then_f64 (var_matrix_f64 payoffs c) (\<lambda>vm.
     then_f64 (variance_f64 vm N) (\<lambda>v.
     then_f64 (standard_error_f64 v N) (\<lambda>se. Inr (c, v, se)))))"

text \<open>
  Lookback options:
  \<^verbatim>\<open>
  payoffs = np.maximum(0,np.amax(prices - strike_price, axis=1))
  Average_Max_Price = np.sum(payoffs)/simulations
  payoffs = np.maximum(0,np.amax(strike_price - prices, axis=1))
  Average_Min_Price = np.sum(payoffs)/simulations
  lookbackpayoffofcall = Average_Max_Price*np.exp(-risk_free_rate*Time)
  lookbackpayoffofput = Average_Min_Price*np.exp(-risk_free_rate*Time)
  \<close>
\<close>

definition payoffs_lookback_call_f64 :: "real list list \<Rightarrow> real \<Rightarrow> failure + real list" where
  "payoffs_lookback_call_f64 P K =
     then_f64 (map_f64 (map_f64 (\<lambda>x. f64 (x - K))) P) (\<lambda>D.
     then_f64 (amax_axis1 D) (\<lambda>ms. Inr (map (max 0) ms)))"

definition payoffs_lookback_put_f64 :: "real list list \<Rightarrow> real \<Rightarrow> failure + real list" where
  "payoffs_lookback_put_f64 P K =
     then_f64 (map_f64 (map_f64 (\<lambda>x. f64 (K - x))) P) (\<lambda>D.
     then_f64 (amax_axis1 D) (\<lambda>ms. Inr (map (max 0) ms)))"

definition Average_Max_Price_f64 :: "real list \<Rightarrow> int \<Rightarrow> failure + real" where
  "Average_Max_Price_f64 payoffs N =
     then_f64 (pairwise_sum_f64 payoffs) (\<lambda>s.
       if N = 0 then Inl NonFinite else f64 (s / real_of_int N))"

definition Average_Min_Price_f64 :: "real list \<Rightarrow> int \<Rightarrow> failure + real" where
  "Average_Min_Price_f64 payoffs N =
     then_f64 (pairwise_sum_f64 payoffs) (\<lambda>s.
       if N = 0 then Inl NonFinite else f64 (s / real_of_int N))"

definition lookbackpayoffofcall_f64 :: "real list list \<Rightarrow> real \<Rightarrow> int \<Rightarrow> real \<Rightarrow> real \<Rightarrow> failure + real" where
  "lookbackpayoffofcall_f64 P K N r T =
     then_f64 (payoffs_lookback_call_f64 P K) (\<lambda>payoffs.
     then_f64 (Average_Max_Price_f64 payoffs N) (\<lambda>a.
     then_f64 (discount_f64 r T) (\<lambda>d. f64 (a * d))))"

definition lookbackpayoffofput_f64 :: "real list list \<Rightarrow> real \<Rightarrow> int \<Rightarrow> real \<Rightarrow> real \<Rightarrow> failure + real" where
  "lookbackpayoffofput_f64 P K N r T =
     then_f64 (payoffs_lookback_put_f64 P K) (\<lambda>payoffs.
     then_f64 (Average_Min_Price_f64 payoffs N) (\<lambda>a.
     then_f64 (discount_f64 r T) (\<lambda>d. f64 (a * d))))"

text \<open>
  Barrier option:
  \<^verbatim>\<open>
  payoffs = np.maximum(0, prices - Barrier_price)
  # count rows where any payoff did not hit zero, which means the options are not knocked out
  Barrier_rows = np.where(np.prod(payoffs, axis=1)!=0)[0]
  Barrier_total = 0
  for i in Barrier_rows:
      Barrier_total += payoffs[i][-1]
  Barrier_option_price = Barrier_total/simulations*np.exp(-risk_free_rate*Time)
  \<close>
  \<^verbatim>\<open>np.prod\<close> multiplies the entries of a row one after the other, starting from 1. A
  product that has become \<^verbatim>\<open>inf\<close> stays \<^verbatim>\<open>inf\<close> or becomes \<^verbatim>\<open>nan\<close>, and both differ from 0:
  a row is kept unless its product is the number 0. \<open>Barrier_total\<close> is the Python integer
  0 when no row is kept, and dividing it by a zero \<open>simulations\<close> raises.
\<close>

definition payoffs_Barrier_f64 :: "real list list \<Rightarrow> real \<Rightarrow> failure + real list list" where
  "payoffs_Barrier_f64 P B =
     map_f64 (map_f64 (\<lambda>x. then_f64 (f64 (x - B)) (\<lambda>y. Inr (max 0 y)))) P"

fun prod_loop_f64 :: "real \<Rightarrow> real list \<Rightarrow> failure + real" where
  "prod_loop_f64 a [] = Inr a"
| "prod_loop_f64 a (x # xs) = then_f64 (f64 (a * x)) (\<lambda>y. prod_loop_f64 y xs)"

definition Barrier_rows_f64 :: "real list list \<Rightarrow> nat list" where
  "Barrier_rows_f64 A = filter (\<lambda>i. prod_loop_f64 1 (A ! i) \<noteq> Inr 0) [0..<length A]"

fun sum_final_f64 :: "real list list \<Rightarrow> nat list \<Rightarrow> real \<Rightarrow> failure + real" where
  "sum_final_f64 A [] acc = Inr acc"
| "sum_final_f64 A (i # idx) acc =
     (if i < length A \<and> A ! i \<noteq> []
      then then_f64 (f64 (acc + last (A ! i))) (sum_final_f64 A idx)
      else Inl IndexError)"

definition Barrier_total_f64 :: "real list list \<Rightarrow> failure + real" where
  "Barrier_total_f64 A = sum_final_f64 A (Barrier_rows_f64 A) 0"

definition Barrier_option_price_f64 :: "real list list \<Rightarrow> real \<Rightarrow> int \<Rightarrow> real \<Rightarrow> real \<Rightarrow> failure + real" where
  "Barrier_option_price_f64 P B N r T =
     then_f64 (payoffs_Barrier_f64 P B) (\<lambda>A.
     then_f64 (Barrier_total_f64 A) (\<lambda>tot.
       if N = 0 then Inl (if Barrier_rows_f64 A = [] then ZeroDivisionError else NonFinite)
       else then_f64 (f64 (tot / real_of_int N)) (\<lambda>q.
            then_f64 (discount_f64 r T) (\<lambda>d. f64 (q * d)))))"

text \<open>Basket option: \<^verbatim>\<open>0.5*Asian_Option_call_price + 0.5*Barrier_option_price\<close>.\<close>

definition Basket_Option_price_f64 :: "real \<Rightarrow> real \<Rightarrow> failure + real" where
  "Basket_Option_price_f64 asian barrier =
     then_f64 (f64 (1 / 2 * asian)) (\<lambda>a.
     then_f64 (f64 (1 / 2 * barrier)) (\<lambda>b. f64 (a + b)))"

text \<open>
  Binary option:
  \<^verbatim>\<open>
  payoffs = np.maximum(0, np.mean(prices, axis=1) - strike_price)
  binarypayoffs = np.count_nonzero(payoffs)/simulations
  binaryoption = binarypayoffs*np.exp(-risk_free_rate*Time)
  \<close>
  \<^verbatim>\<open>np.count_nonzero\<close> returns a Python integer, so a zero \<open>simulations\<close> raises.
\<close>

definition binarypayoffs_f64 :: "real list \<Rightarrow> int \<Rightarrow> failure + real" where
  "binarypayoffs_f64 payoffs N =
     (if N = 0 then Inl ZeroDivisionError
      else f64 (real (length (filter (\<lambda>x. x \<noteq> 0) payoffs)) / real_of_int N))"

definition binaryoption_f64 :: "real list list \<Rightarrow> real \<Rightarrow> int \<Rightarrow> real \<Rightarrow> real \<Rightarrow> failure + real" where
  "binaryoption_f64 P K N r T =
     then_f64 (payoffs_Asian_f64 P K) (\<lambda>payoffs.
     then_f64 (binarypayoffs_f64 payoffs N) (\<lambda>b.
     then_f64 (discount_f64 r T) (\<lambda>d. f64 (b * d))))"

text \<open>Chooser option: the two loops over the final column and the larger sum over \<open>simulations\<close>.\<close>

definition choosercallpayoffs_f64 :: "real list list \<Rightarrow> real \<Rightarrow> failure + real list list" where
  "choosercallpayoffs_f64 P K =
     map_f64 (map_f64 (\<lambda>x. then_f64 (f64 (x - K)) (\<lambda>y. Inr (max 0 y)))) P"

definition chooserputpayoffs_f64 :: "real list list \<Rightarrow> real \<Rightarrow> failure + real list list" where
  "chooserputpayoffs_f64 P K =
     map_f64 (map_f64 (\<lambda>x. then_f64 (f64 (K - x)) (\<lambda>y. Inr (max 0 y)))) P"

definition chooser_option_price_f64 :: "real list list \<Rightarrow> real \<Rightarrow> int \<Rightarrow> failure + real" where
  "chooser_option_price_f64 P K N =
     then_f64 (choosercallpayoffs_f64 P K) (\<lambda>C.
     then_f64 (sum_final_f64 C [0..<nat N] 0) (\<lambda>s1.
     then_f64 (chooserputpayoffs_f64 P K) (\<lambda>Q.
     then_f64 (sum_final_f64 Q [0..<nat N] 0) (\<lambda>s2.
       if N = 0 then Inl NonFinite else f64 (max s1 s2 / real_of_int N)))))"

text \<open>Range statistics: \<^verbatim>\<open>(left + right + (left < right)) * (50.0 / n)\<close> for every row.\<close>

definition percentileofscore_f64 :: "real list list \<Rightarrow> real \<Rightarrow> failure + real list" where
  "percentileofscore_f64 a score =
     (if a = [] then Inl NonFinite
      else then_f64 (f64 (50 / real (length a))) (\<lambda>c.
           map_f64 (\<lambda>row.
             let left = length (filter (\<lambda>x. x < score) row);
                 right = length (filter (\<lambda>x. x \<le> score) row);
                 plus1 = (if left < right then 1 else 0)
             in f64 (real (left + right + plus1) * c)) a))"

subsection \<open>The cells as steps on the global variables\<close>

text \<open>
  The state after the first cell: the matrix \<open>prices\<close> and the results the later cells
  assign and print (\<open>None\<close> while a variable is unassigned). The cells compute in
  float64; a cell that raises, or whose result is not finite, ends the run of the model.
\<close>

record notebook =
  nb_prices :: "real list list"
  nb_Asian_Option_call_price :: "real option"
  nb_variance :: "real option"
  nb_standard_error :: "real option"
  nb_lookbackpayoffofcall :: "real option"
  nb_lookbackpayoffofput :: "real option"
  nb_Barrier_option_price :: "real option"
  nb_Basket_Option_price :: "real option"
  nb_binaryoption :: "real option"
  nb_chooser_option_price :: "real option"
  nb_percentile_of_95 :: "real list option"
  nb_percentile_of_105 :: "real list option"

definition simulate_cell :: "parameters \<Rightarrow> (nat \<Rightarrow> nat \<Rightarrow> real) \<Rightarrow> failure + notebook" where
  "simulate_cell p Z =
     (case prices_f64 p Z of
        Inl e \<Rightarrow> Inl e
      | Inr P \<Rightarrow>
          Inr \<lparr>nb_prices = P, nb_Asian_Option_call_price = None, nb_variance = None,
               nb_standard_error = None, nb_lookbackpayoffofcall = None,
               nb_lookbackpayoffofput = None, nb_Barrier_option_price = None,
               nb_Basket_Option_price = None, nb_binaryoption = None,
               nb_chooser_option_price = None, nb_percentile_of_95 = None,
               nb_percentile_of_105 = None\<rparr>)"

definition asian_cell :: "parameters \<Rightarrow> notebook \<Rightarrow> failure + notebook" where
  "asian_cell p s =
     (case payoffs_Asian_f64 (nb_prices s) (strike_price p) of
        Inl e \<Rightarrow> Inl e
      | Inr payoffs \<Rightarrow>
          (case pricing_result_f64 payoffs (risk_free_rate p) (Time p) (simulations p) of
             Inl e \<Rightarrow> Inl e
           | Inr (c, v, se) \<Rightarrow>
               Inr (s\<lparr>nb_Asian_Option_call_price := Some c, nb_variance := Some v,
                      nb_standard_error := Some se\<rparr>)))"

definition lookback_cell :: "parameters \<Rightarrow> notebook \<Rightarrow> failure + notebook" where
  "lookback_cell p s =
     (case lookbackpayoffofcall_f64 (nb_prices s) (strike_price p) (simulations p)
             (risk_free_rate p) (Time p) of
        Inl e \<Rightarrow> Inl e
      | Inr c \<Rightarrow>
          (case lookbackpayoffofput_f64 (nb_prices s) (strike_price p) (simulations p)
                  (risk_free_rate p) (Time p) of
             Inl e \<Rightarrow> Inl e
           | Inr q \<Rightarrow>
               Inr (s\<lparr>nb_lookbackpayoffofcall := Some c, nb_lookbackpayoffofput := Some q\<rparr>)))"

text \<open>The barrier cell starts with \<^verbatim>\<open>Barrier_price = 99\<close>.\<close>

definition barrier_cell :: "parameters \<Rightarrow> notebook \<Rightarrow> failure + notebook" where
  "barrier_cell p s =
     (case Barrier_option_price_f64 (nb_prices s) 99 (simulations p) (risk_free_rate p)
             (Time p) of
        Inl e \<Rightarrow> Inl e
      | Inr b \<Rightarrow> Inr (s\<lparr>nb_Barrier_option_price := Some b\<rparr>))"

text \<open>The basket cell reads two results; Python raises NameError on an unassigned one.\<close>

definition basket_cell :: "notebook \<Rightarrow> failure + notebook" where
  "basket_cell s =
     (case (nb_Asian_Option_call_price s, nb_Barrier_option_price s) of
        (Some a, Some b) \<Rightarrow>
          (case Basket_Option_price_f64 a b of
             Inl e \<Rightarrow> Inl e
           | Inr v \<Rightarrow> Inr (s\<lparr>nb_Basket_Option_price := Some v\<rparr>))
      | _ \<Rightarrow> Inl NameError)"

definition binary_cell :: "parameters \<Rightarrow> notebook \<Rightarrow> failure + notebook" where
  "binary_cell p s =
     (case binaryoption_f64 (nb_prices s) (strike_price p) (simulations p) (risk_free_rate p)
             (Time p) of
        Inl e \<Rightarrow> Inl e
      | Inr b \<Rightarrow> Inr (s\<lparr>nb_binaryoption := Some b\<rparr>))"

definition chooser_cell :: "parameters \<Rightarrow> notebook \<Rightarrow> failure + notebook" where
  "chooser_cell p s =
     (case chooser_option_price_f64 (nb_prices s) (strike_price p) (simulations p) of
        Inl e \<Rightarrow> Inl e
      | Inr c \<Rightarrow> Inr (s\<lparr>nb_chooser_option_price := Some c\<rparr>))"

definition range_cell :: "notebook \<Rightarrow> failure + notebook" where
  "range_cell s =
     (case percentileofscore_f64 (nb_prices s) 95 of
        Inl e \<Rightarrow> Inl e
      | Inr a \<Rightarrow>
          (case percentileofscore_f64 (nb_prices s) 105 of
             Inl e \<Rightarrow> Inl e
           | Inr b \<Rightarrow> Inr (s\<lparr>nb_percentile_of_95 := Some a, nb_percentile_of_105 := Some b\<rparr>)))"

text \<open>The evaluator cells, in the notebook's order, and a run of a list of cells.\<close>

definition evaluator_cells :: "parameters \<Rightarrow> (notebook \<Rightarrow> failure + notebook) list" where
  "evaluator_cells p =
     [asian_cell p, lookback_cell p, barrier_cell p, basket_cell, binary_cell p,
      chooser_cell p, range_cell]"

fun run_cells :: "(notebook \<Rightarrow> failure + notebook) list \<Rightarrow> notebook \<Rightarrow> failure + notebook" where
  "run_cells [] s = Inr s"
| "run_cells (c # cs) s = (case c s of Inl e \<Rightarrow> Inl e | Inr s' \<Rightarrow> run_cells cs s')"

subsection \<open>Parameter sets used to evaluate the model\<close>

text \<open>The notebook's parameters on a grid of two simulations and two time steps.\<close>

definition small_parameters :: parameters where
  "small_parameters = notebook_parameters\<lparr>simulations := 2, Time_steps := 2\<rparr>"


text \<open>No volatility and a positive rate: both paths grow alike, above the strike price.\<close>

definition growth_parameters :: parameters where
  "growth_parameters =
     \<lparr>spot_price = 100, strike_price = 100, Time = 1, risk_free_rate = 1 / 20, sigma = 0,
      simulations = 2, Time_steps = 1\<rparr>"

text \<open>
  No drift, no volatility and time steps of length 1: every price is the spot price. The
  spot price is the float64 value of the literal \<^verbatim>\<open>110.1\<close>.
\<close>

definition mean_rounding_parameters :: parameters where
  "mean_rounding_parameters =
     \<lparr>spot_price = 3873799366980403 / 35184372088832, strike_price = 105, Time = 6,
      risk_free_rate = 0, sigma = 0, simulations = 1, Time_steps = 6\<rparr>"

text \<open>The same with the float64 value of the literal \<^verbatim>\<open>105.1\<close> as spot and strike price.\<close>

definition strike_rounding_parameters :: parameters where
  "strike_rounding_parameters =
     \<lparr>spot_price = 3697877506536243 / 35184372088832,
      strike_price = 3697877506536243 / 35184372088832, Time = 6,
      risk_free_rate = 0, sigma = 0, simulations = 1, Time_steps = 6\<rparr>"

text \<open>
  The same over 24 steps with the spot price \<open>99 + 2\<^sup>-\<^sup>4\<^sup>6\<close>, the float64 value next
  above the barrier price 99.
\<close>

definition barrier_underflow_parameters :: parameters where
  "barrier_underflow_parameters =
     \<lparr>spot_price = 99 + 1 / 2 ^ 46, strike_price = 105, Time = 24,
      risk_free_rate = 0, sigma = 0, simulations = 1, Time_steps = 24\<rparr>"

text \<open>A volatility of 5000 percent over one step.\<close>

definition underflow_parameters :: parameters where
  "underflow_parameters =
     \<lparr>spot_price = 100, strike_price = 105, Time = 1, risk_free_rate = 0, sigma = 50,
      simulations = 1, Time_steps = 1\<rparr>"

text \<open>A rate of 110000 percent over one step.\<close>

definition overflow_parameters :: parameters where
  "overflow_parameters =
     \<lparr>spot_price = 100, strike_price = 105, Time = 1, risk_free_rate = 1100, sigma = 0,
      simulations = 1, Time_steps = 1\<rparr>"

text \<open>Two simulations of two steps of length 1 without drift and volatility.\<close>

definition flat_parameters :: parameters where
  "flat_parameters =
     \<lparr>spot_price = 100, strike_price = 105, Time = 2, risk_free_rate = 0, sigma = 0,
      simulations = 2, Time_steps = 2\<rparr>"

section \<open>Properties of the path simulator\<close>

lemma length_cumprod_from: "length (cumprod_from a xs) = length xs"
  by (induction xs arbitrary: a) simp_all

lemma prod_nth_Cons: "(\<Prod>k = 0..Suc i. (x # xs) ! k) = x * (\<Prod>k = 0..i. xs ! k)"
  by (subst prod.atLeast0_atMost_Suc_shift) simp

lemma cumprod_from_nth:
  "j < length xs \<Longrightarrow> cumprod_from a xs ! j = a * (\<Prod>k = 0..j. xs ! k)"
proof (induction xs arbitrary: a j)
  case Nil
  then show ?case by simp
next
  case (Cons x xs)
  show ?case
  proof (cases j)
    case 0
    then show ?thesis by simp
  next
    case (Suc i)
    with Cons.prems have i: "i < length xs" by simp
    show ?thesis
      unfolding Suc prod_nth_Cons using Cons.IH [OF i, of "a * x"]
      by (simp add: mult.assoc)
  qed
qed

lemma cumprod_from_pos:
  "0 < a \<Longrightarrow> \<forall>x \<in> set xs. 0 < x \<Longrightarrow> \<forall>y \<in> set (cumprod_from a xs). 0 < y"
proof (induction xs arbitrary: a)
  case Nil
  then show ?case by simp
next
  case (Cons x xs)
  then have "0 < a * x" by simp
  from Cons.IH [OF this] Cons.prems show ?case by simp
qed

text \<open>With a non-negative maturity and a shape numpy accepts, the cell returns a matrix.\<close>

lemma prices_valid:
  assumes "0 \<le> Time p" "1 \<le> Time_steps p" "0 \<le> simulations p"
  shows "prices p Z = Inr (map (\<lambda>i. map (\<lambda>c. spot_price p * c) (cumprod (map (\<lambda>j.
      exp ((risk_free_rate p - sigma p * sigma p / 2) * (Time p / real_of_int (Time_steps p))
           + sigma p * Z i j * sqrt (Time p / real_of_int (Time_steps p))))
      [0..<nat (Time_steps p)]))) [0..<nat (simulations p)])"
proof -
  have "\<not> Time p / real_of_int (Time_steps p) < 0"
    using assms by (simp add: not_less)
  with assms show ?thesis
    by (simp add: prices_def dt_def random_normal_def ratio_matrix_def scale_cumprod_def comp_def)
qed

text \<open>
  Claim C1. For a positive maturity \<open>T\<close>, a step count \<open>M \<ge> 1\<close> and a simulation count
  \<open>N \<ge> 0\<close> (whatever the spot price and the volatility), and for every matrix \<open>Z\<close> of
  draws, the simulator returns an \<open>N \<times> M\<close> matrix whose entry \<open>(i, j)\<close> is the spot
  price times the product over \<open>k = 0..j\<close> of
  \<open>exp ((r - \<sigma>\<^sup>2 / 2) * dt + \<sigma> * sqrt dt * Z i k)\<close> with \<open>dt = T / M\<close>. Column \<open>j\<close> is
  the price after \<open>j + 1\<close> steps: column \<open>0\<close> is the spot price after the first step,
  and there are \<open>M\<close> columns, none for the spot price before the first step.
\<close>

theorem prices_entry_formula:
  assumes "0 < Time p" and "1 \<le> Time_steps p" and "0 \<le> simulations p"
  shows "\<exists>P. prices p Z = Inr P \<and> length P = nat (simulations p) \<and>
    (\<forall>i < nat (simulations p).
       length (P ! i) = nat (Time_steps p) \<and>
       P ! i ! 0 = spot_price p *
          exp ((risk_free_rate p - (sigma p)\<^sup>2 / 2) * (Time p / real_of_int (Time_steps p))
               + sigma p * sqrt (Time p / real_of_int (Time_steps p)) * Z i 0) \<and>
       (\<forall>j < nat (Time_steps p).
          P ! i ! j = spot_price p *
            (\<Prod>k = 0..j.
               exp ((risk_free_rate p - (sigma p)\<^sup>2 / 2) * (Time p / real_of_int (Time_steps p))
                    + sigma p * sqrt (Time p / real_of_int (Time_steps p)) * Z i k))))"
proof -
  let ?d = "Time p / real_of_int (Time_steps p)"
  let ?f = "\<lambda>z. exp ((risk_free_rate p - sigma p * sigma p / 2) * ?d + sigma p * z * sqrt ?d)"
  let ?g = "\<lambda>z. exp ((risk_free_rate p - (sigma p)\<^sup>2 / 2) * ?d + sigma p * sqrt ?d * z)"
  let ?row = "\<lambda>i. map (\<lambda>c. spot_price p * c) (cumprod (map (\<lambda>j. ?f (Z i j)) [0..<nat (Time_steps p)]))"
  let ?P = "map ?row [0..<nat (simulations p)]"
  have fg: "?f z = ?g z" for z
    by (simp add: power2_eq_square mult.commute mult.left_commute)
  have P: "prices p Z = Inr ?P"
    using assms by (intro prices_valid) simp_all
  have len: "length ?P = nat (simulations p)"
    by simp
  have row: "?P ! i = ?row i" if "i < nat (simulations p)" for i
    using that by simp
  have rowlen: "length (?P ! i) = nat (Time_steps p)" if "i < nat (simulations p)" for i
    unfolding row [OF that] by (simp add: cumprod_def length_cumprod_from)
  have entry: "?P ! i ! j = spot_price p * (\<Prod>k = 0..j. ?g (Z i k))"
    if "i < nat (simulations p)" "j < nat (Time_steps p)" for i j
  proof -
    have "map (\<lambda>j. ?f (Z i j)) [0..<nat (Time_steps p)] ! k = ?g (Z i k)" if "k \<le> j" for k
    proof -
      from that \<open>j < nat (Time_steps p)\<close> have "k < nat (Time_steps p)" by simp
      then have "map (\<lambda>j. ?f (Z i j)) [0..<nat (Time_steps p)] ! k = ?f (Z i k)" by simp
      also have "\<dots> = ?g (Z i k)" by (rule fg)
      finally show ?thesis .
    qed
    then have "(\<Prod>k = 0..j. map (\<lambda>j. ?f (Z i j)) [0..<nat (Time_steps p)] ! k) = (\<Prod>k = 0..j. ?g (Z i k))"
      by (intro prod.cong refl) simp
    then show ?thesis
      unfolding row [OF that(1)] using that(2)
      by (simp add: cumprod_def length_cumprod_from cumprod_from_nth)
  qed
  have first: "?P ! i ! 0 = spot_price p * ?g (Z i 0)" if "i < nat (simulations p)" for i
    using entry [OF that, of 0] assms(2) by simp
  show ?thesis
    using P len rowlen entry first by blast
qed

theorem prices_entry_formula_witness:
  "\<exists>P. prices small_parameters zero_draws = Inr P \<and> length P = 2 \<and> length (P ! 1) = 2 \<and>
       P ! 1 ! 0 = 100 * exp (3 / 200) \<and> P ! 1 ! 1 = 100 * (exp (3 / 200))\<^sup>2"
proof -
  have v: "0 < Time small_parameters" "1 \<le> Time_steps small_parameters"
    "0 \<le> simulations small_parameters"
    by (simp_all add: small_parameters_def notebook_parameters_def)
  from prices_entry_formula [OF v, of zero_draws]
  obtain P where P: "prices small_parameters zero_draws = Inr P"
      "length P = nat (simulations small_parameters)"
    and rows: "\<forall>i < nat (simulations small_parameters).
       length (P ! i) = nat (Time_steps small_parameters) \<and>
       P ! i ! 0 = spot_price small_parameters *
          exp ((risk_free_rate small_parameters - (sigma small_parameters)\<^sup>2 / 2) * (Time small_parameters / real_of_int (Time_steps small_parameters))
               + sigma small_parameters * sqrt (Time small_parameters / real_of_int (Time_steps small_parameters)) * zero_draws i 0) \<and>
       (\<forall>j < nat (Time_steps small_parameters).
          P ! i ! j = spot_price small_parameters *
            (\<Prod>k = 0..j.
               exp ((risk_free_rate small_parameters - (sigma small_parameters)\<^sup>2 / 2) * (Time small_parameters / real_of_int (Time_steps small_parameters))
                    + sigma small_parameters * sqrt (Time small_parameters / real_of_int (Time_steps small_parameters)) * zero_draws i k)))"
    by blast
  have one: "(1::nat) < nat (simulations small_parameters)" "(1::nat) < nat (Time_steps small_parameters)"
    by (simp_all add: small_parameters_def notebook_parameters_def)
  from rows one have
    "length (P ! 1) = 2 \<and> P ! 1 ! 0 = 100 * exp (3 / 200) \<and> P ! 1 ! 1 = 100 * (exp (3 / 200))\<^sup>2"
    by (simp add: small_parameters_def notebook_parameters_def zero_draws_def power2_eq_square)
  with P show ?thesis
    by (simp add: small_parameters_def notebook_parameters_def)
qed

section \<open>What the simulation cell does with invalid parameters\<close>






section \<open>Price, variance and standard error of a payoff vector\<close>

lemma sum_list_nth: "sum_list (map f xs) = (\<Sum>i<length xs. f (xs ! i))"
proof -
  have "sum_list (map f xs) = (\<Sum>i = 0..<length (map f xs). map f xs ! i)"
    by (rule sum_list_sum_nth)
  also have "\<dots> = (\<Sum>i<length xs. f (xs ! i))"
    by (simp add: atLeast0LessThan)
  finally show ?thesis .
qed

lemma Asian_Option_call_price_eq:
  "payoffs \<noteq> [] \<Longrightarrow>
   Asian_Option_call_price payoffs r T =
     Inr (sum_list payoffs / real (length payoffs) * exp (- (r * T)))"
  by (simp add: Asian_Option_call_price_def np_mean_def)

lemma variance_eq:
  assumes "2 \<le> length payoffs"
  shows "variance (var_matrix payoffs c) (int (length payoffs)) =
     Inr ((\<Sum>i<length payoffs. (payoffs ! i - c)\<^sup>2) / (real (length payoffs) - 1))"
proof -
  have n1: "int (length payoffs) - 1 \<noteq> 0" using assms by simp
  have cast: "real_of_int (int (length payoffs) - 1) = real (length payoffs) - 1"
    by simp
  show ?thesis
    unfolding variance_def var_matrix_def sum_list_nth using n1 cast by simp
qed

lemma standard_error_eq:
  assumes "0 \<le> v" and "0 < n"
  shows "standard_error v (int n) = Inr (sqrt (v / real n))"
proof -
  from assms have "\<not> v / real_of_int (int n) < 0"
    by (simp add: not_less)
  with assms(2) show ?thesis
    by (simp add: standard_error_def)
qed

lemma sum_squares_over_nonneg:
  "2 \<le> length (xs :: real list) \<Longrightarrow> 0 \<le> (\<Sum>i<length xs. (xs ! i - c)\<^sup>2) / (real (length xs) - 1)"
  by (intro divide_nonneg_nonneg sum_nonneg) simp_all

text \<open>
  Claim C3. For a payoff vector of length \<open>N \<ge> 2\<close>, a rate \<open>r\<close> and a maturity \<open>T\<close>, the
  cell computes the price \<open>c = mean payoffs * exp (- r * T)\<close>, the variance
  \<open>v = (\<Sum>i. (payoffs ! i - c)\<^sup>2) / (N - 1)\<close>, whose sum is centred at the discounted price
  \<open>c\<close> and not at the mean of the payoffs, and the standard error \<open>sqrt (v / N)\<close>.
\<close>

theorem pricing_result_formula:
  assumes "2 \<le> length payoffs"
    and "c = sum_list payoffs / real (length payoffs) * exp (- (r * T))"
    and "v = (\<Sum>i<length payoffs. (payoffs ! i - c)\<^sup>2) / (real (length payoffs) - 1)"
    and "se = sqrt (v / real (length payoffs))"
  shows "pricing_result payoffs r T (int (length payoffs)) = Inr (c, v, se)"
proof -
  from assms(1) have ne: "payoffs \<noteq> []" and n: "0 < length payoffs" by auto
  have price: "Asian_Option_call_price payoffs r T = Inr c"
    unfolding assms(2) using ne by (rule Asian_Option_call_price_eq)
  have var: "variance (var_matrix payoffs c) (int (length payoffs)) = Inr v"
    unfolding assms(3) using assms(1) by (rule variance_eq)
  have "0 \<le> v"
    unfolding assms(3) using assms(1) by (rule sum_squares_over_nonneg)
  then have se: "standard_error v (int (length payoffs)) = Inr se"
    unfolding assms(4) using n by (rule standard_error_eq)
  show ?thesis
    by (simp add: pricing_result_def price var se)
qed

theorem pricing_result_formula_witness:
  "pricing_result [1, 3] 0 1 2 = Inr (2, 2, 1)"
proof -
  have "pricing_result [1, 3] 0 1 (int (length [1, 3 :: real])) = Inr (2, 2, 1)"
    by (rule pricing_result_formula) (simp_all add: lessThan_Suc numeral_2_eq_2)
  then show ?thesis by simp
qed

text \<open>
  The variance the cell computes for \<open>n\<close> identical payoffs \<open>x\<close>: it is zero only when
  \<open>x = 0\<close> or \<open>r * T = 0\<close>.
\<close>

lemma variance_of_identical_payoffs:
  assumes "2 \<le> n"
  shows "\<exists>c se. pricing_result (replicate n x) r T (int n) =
           Inr (c, real n * (x - x * exp (- (r * T)))\<^sup>2 / (real n - 1), se)"
proof -
  let ?xs = "replicate n x"
  let ?c = "x * exp (- (r * T))"
  let ?v = "real n * (x - ?c)\<^sup>2 / (real n - 1)"
  from assms have len: "2 \<le> length ?xs" and ne: "?xs \<noteq> []" and n: "0 < n" by auto
  have "Asian_Option_call_price ?xs r T = Inr (sum_list ?xs / real (length ?xs) * exp (- (r * T)))"
    using ne by (rule Asian_Option_call_price_eq)
  then have price: "Asian_Option_call_price ?xs r T = Inr ?c"
    using n by (simp add: sum_list_replicate)
  have "variance (var_matrix ?xs ?c) (int (length ?xs)) =
      Inr ((\<Sum>i<length ?xs. (?xs ! i - ?c)\<^sup>2) / (real (length ?xs) - 1))"
    using len by (rule variance_eq)
  then have var: "variance (var_matrix ?xs ?c) (int n) = Inr ?v"
    by simp
  have "0 \<le> ?v"
    using assms by (intro divide_nonneg_nonneg mult_nonneg_nonneg) simp_all
  then have se: "standard_error ?v (int n) = Inr (sqrt (?v / real n))"
    using n by (rule standard_error_eq)
  show ?thesis
    by (simp add: pricing_result_def price var se)
qed

lemma exp_twentieth: "1 < exp (1 / 20 :: real)" "exp (- (1 / 20) :: real) < 1"
  by simp_all

text \<open>
  Claim C6 says that the variance of a payoff vector of identical values is exactly zero.
  The notebook documents the variance as \<open>1 / (N - 1)\<close> times the sum of
  \<open>(Payoff - Average)\<^sup>2\<close> and comments the line as the variance of the payoffs, but centres
  the sum at the discounted price. With no volatility, spot and strike 100, rate 0.05,
  maturity 1, two simulations and one step, both payoffs are \<open>100 * exp (1 / 20) - 100\<close> and
  the variance the cell computes is strictly positive.
\<close>

theorem variance_of_identical_payoffs_not_zero:
  "prices growth_parameters zero_draws = Inr [[100 * exp (1 / 20)], [100 * exp (1 / 20)]] \<and>
   payoffs_Asian [[100 * exp (1 / 20)], [100 * exp (1 / 20)]] (strike_price growth_parameters) =
     Inr [100 * exp (1 / 20) - 100, 100 * exp (1 / 20) - 100] \<and>
   (\<exists>c v se. pricing_result [100 * exp (1 / 20) - 100, 100 * exp (1 / 20) - 100]
        (risk_free_rate growth_parameters) (Time growth_parameters)
        (simulations growth_parameters) = Inr (c, v, se) \<and> 0 < v)"
proof (intro conjI)
  show "prices growth_parameters zero_draws = Inr [[100 * exp (1 / 20)], [100 * exp (1 / 20)]]"
    by (simp add: prices_def dt_def random_normal_def ratio_matrix_def scale_cumprod_def
      cumprod_def growth_parameters_def zero_draws_def upt_rec)
  have pos: "0 < 100 * exp (1 / 20 :: real) - 100"
    using exp_twentieth(1) by simp
  then show "payoffs_Asian [[100 * exp (1 / 20)], [100 * exp (1 / 20)]] (strike_price growth_parameters) =
     Inr [100 * exp (1 / 20) - 100, 100 * exp (1 / 20) - 100]"
    by (simp add: payoffs_Asian_def mean_axis1_def growth_parameters_def max_def)
  let ?x = "100 * exp (1 / 20 :: real) - 100"
  from variance_of_identical_payoffs [of 2 ?x "1 / 20" 1]
  obtain c se where res: "pricing_result [?x, ?x] (1 / 20) 1 2 =
      Inr (c, 2 * (?x - ?x * exp (- (1 / 20)))\<^sup>2 / (2 - 1), se)"
    by (auto simp add: numeral_2_eq_2)
  have "?x - ?x * exp (- (1 / 20)) = ?x * (1 - exp (- (1 / 20)))"
    by (simp add: algebra_simps)
  moreover have "0 < ?x * (1 - exp (- (1 / 20)))"
    using pos exp_twentieth(2) by (intro mult_pos_pos) simp_all
  ultimately have "0 < 2 * (?x - ?x * exp (- (1 / 20)))\<^sup>2 / (2 - 1)"
    by simp
  with res show "\<exists>c v se. pricing_result [?x, ?x]
        (risk_free_rate growth_parameters) (Time growth_parameters)
        (simulations growth_parameters) = Inr (c, v, se) \<and> 0 < v"
    by (simp add: growth_parameters_def)
qed

section \<open>The loops over the final column\<close>

lemma sum_final_eq:
  "\<forall>i \<in> set idx. i < length A \<and> A ! i \<noteq> [] \<Longrightarrow>
   sum_final A idx acc = Inr (acc + (\<Sum>i\<leftarrow>idx. last (A ! i)))"
  by (induction idx arbitrary: acc) (simp_all add: add.assoc)

lemma map_nth_upt: "map (\<lambda>i. f (xs ! i)) [0..<length xs] = map f xs"
  by (rule nth_equalityI) simp_all

lemma sum_final_all_rows:
  assumes "[] \<notin> set A"
  shows "sum_final A [0..<length A] 0 = Inr (\<Sum>row\<leftarrow>A. last row)"
proof -
  have "\<forall>i \<in> set [0..<length A]. i < length A \<and> A ! i \<noteq> []"
    using assms by (auto simp add: in_set_conv_nth)
  then have "sum_final A [0..<length A] 0 = Inr (0 + (\<Sum>i\<leftarrow>[0..<length A]. last (A ! i)))"
    by (rule sum_final_eq)
  then show ?thesis
    by (simp add: map_nth_upt)
qed

lemma sum_final_filtered_rows:
  assumes "[] \<notin> set A"
  shows "sum_final A (filter (\<lambda>i. Q (A ! i)) [0..<length A]) 0 =
         Inr (\<Sum>row\<leftarrow>A. if Q row then last row else 0)"
proof -
  let ?idx = "filter (\<lambda>i. Q (A ! i)) [0..<length A]"
  have "\<forall>i \<in> set ?idx. i < length A \<and> A ! i \<noteq> []"
    using assms by (auto simp add: in_set_conv_nth)
  then have "sum_final A ?idx 0 = Inr (0 + (\<Sum>i\<leftarrow>?idx. last (A ! i)))"
    by (rule sum_final_eq)
  also have "(\<Sum>i\<leftarrow>?idx. last (A ! i)) =
      (\<Sum>i\<leftarrow>[0..<length A]. if Q (A ! i) then last (A ! i) else 0)"
    by (rule sum_list_map_filter')
  also have "\<dots> = (\<Sum>row\<leftarrow>A. if Q row then last row else 0)"
    using map_nth_upt [of "\<lambda>row. if Q row then last row else 0" A] by simp
  finally show ?thesis by simp
qed

lemma sum_list_map_cong_rows:
  "(\<And>row. row \<in> set P \<Longrightarrow> f row = g row) \<Longrightarrow> (\<Sum>row\<leftarrow>P. f row) = (\<Sum>row\<leftarrow>P. (g row :: real))"
  by (induction P) simp_all

lemma sum_last_mapped:
  assumes "[] \<notin> set P"
  shows "(\<Sum>row\<leftarrow>map (map f) P. last row) = (\<Sum>row\<leftarrow>P. (f (last row) :: real))"
proof -
  have "(\<Sum>row\<leftarrow>map (map f) P. last row) = (\<Sum>row\<leftarrow>P. last (map f row))"
    by (simp add: comp_def)
  also have "\<dots> = (\<Sum>row\<leftarrow>P. f (last row))"
  proof (rule sum_list_map_cong_rows)
    fix row assume "row \<in> set P"
    with assms have "row \<noteq> []" by auto
    then show "last (map f row) = f (last row)" by (rule last_map)
  qed
  finally show ?thesis .
qed

section \<open>Chooser option\<close>

text \<open>
  Claim C4. For every price matrix with \<open>N \<ge> 1\<close> rows, none of them empty, the chooser
  price is exactly the larger of the two sums over all rows, of \<open>max 0 (final - strike)\<close>
  and of \<open>max 0 (strike - final)\<close>, divided by \<open>N\<close>. The maximum is taken once, of the two
  sums, not row by row; the price is a function of the matrix, the strike and \<open>N\<close> alone.
  (On \<open>[[90, 100], [100, 120]]\<close> with strike 105 it is \<open>15 / 2\<close>, where a choice per row would
  give 10.)
\<close>

theorem chooser_option_price_formula:
  assumes "P \<noteq> []" and "[] \<notin> set P"
  shows "chooser_option_price P K (int (length P)) =
     Inr (max (\<Sum>row\<leftarrow>P. max 0 (last row - K)) (\<Sum>row\<leftarrow>P. max 0 (K - last row))
          / real (length P))"
proof -
  have c: "[] \<notin> set (choosercallpayoffs P K)" and q: "[] \<notin> set (chooserputpayoffs P K)"
    using assms(2) by (auto simp add: choosercallpayoffs_def chooserputpayoffs_def)
  have "sum1 P K (int (length P)) = sum_final (choosercallpayoffs P K) [0..<length (choosercallpayoffs P K)] 0"
    by (simp add: sum1_def choosercallpayoffs_def)
  also have "\<dots> = Inr (\<Sum>row\<leftarrow>choosercallpayoffs P K. last row)"
    using c by (rule sum_final_all_rows)
  also have "(\<Sum>row\<leftarrow>choosercallpayoffs P K. last row) = (\<Sum>row\<leftarrow>P. max 0 (last row - K))"
    unfolding choosercallpayoffs_def using assms(2) by (rule sum_last_mapped)
  finally have s1: "sum1 P K (int (length P)) = Inr (\<Sum>row\<leftarrow>P. max 0 (last row - K))" .
  have "sum2 P K (int (length P)) = sum_final (chooserputpayoffs P K) [0..<length (chooserputpayoffs P K)] 0"
    by (simp add: sum2_def chooserputpayoffs_def)
  also have "\<dots> = Inr (\<Sum>row\<leftarrow>chooserputpayoffs P K. last row)"
    using q by (rule sum_final_all_rows)
  also have "(\<Sum>row\<leftarrow>chooserputpayoffs P K. last row) = (\<Sum>row\<leftarrow>P. max 0 (K - last row))"
    unfolding chooserputpayoffs_def using assms(2) by (rule sum_last_mapped)
  finally have s2: "sum2 P K (int (length P)) = Inr (\<Sum>row\<leftarrow>P. max 0 (K - last row))" .
  from assms(1) show ?thesis
    by (simp add: chooser_option_price_def s1 s2)
qed

theorem chooser_option_price_formula_witness:
  "chooser_option_price [[90, 100], [100, 120]] 105 2 = Inr (15 / 2)"
proof -
  have "chooser_option_price [[90, 100], [100, 120]] 105 (int (length [[90, 100], [100, 120 :: real]])) =
     Inr (max (\<Sum>row\<leftarrow>[[90, 100], [100, 120]]. max 0 (last row - 105))
              (\<Sum>row\<leftarrow>[[90, 100], [100, 120]]. max 0 (105 - last row))
          / real (length [[90, 100], [100, 120 :: real]]))"
    by (rule chooser_option_price_formula) simp_all
  then show ?thesis by simp
qed

section \<open>Range statistics\<close>

text \<open>
  Claim C8 says that the rank query returns one number, the percentile rank of the level
  among all entries of the matrix. The cell passes the matrix itself to
  \<^verbatim>\<open>percentileofscore\<close>, where \<^verbatim>\<open>np.percentile(prices, 40)\<close> two lines above works on the
  flattened matrix. The result is one number per row, the count within the row scaled by
  \<open>100 / N\<close>: for the rows \<open>[90, 100]\<close> and \<open>[96, 100]\<close> and the level 95 it is \<open>[50, 0]\<close>,
  while the rank of 95 among the four entries is 25.
\<close>

theorem percentileofscore_per_row:
  "percentileofscore [[90, 100], [96, 100]] 95 = Inr [50, 0] \<and>
   flattened_percentile_rank [[90, 100], [96, 100]] 95 = Inr 25"
  by (simp add: percentileofscore_def flattened_percentile_rank_def)

section \<open>Rounding to float64\<close>

lemma rne_of_int [simp]: "rne (of_int n) = n"
  by (simp add: rne_def)

lemma rne_bounds: "\<lfloor>x\<rfloor> \<le> rne x" "rne x \<le> \<lfloor>x\<rfloor> + 1"
  by (simp_all add: rne_def Let_def)

lemma rne_mono:
  assumes "x \<le> y"
  shows "rne x \<le> rne y"
proof (cases "\<lfloor>x\<rfloor> = \<lfloor>y\<rfloor>")
  case True
  define f where "f = \<lfloor>y\<rfloor>"
  define dx where "dx = x - of_int f"
  define dy where "dy = y - of_int f"
  from assms have "dx \<le> dy" by (simp add: dx_def dy_def)
  moreover have "rne x = (if dx < 1 / 2 then f else if 1 / 2 < dx then f + 1 else if even f then f else f + 1)"
    by (simp add: rne_def Let_def True f_def dx_def)
  moreover have "rne y = (if dy < 1 / 2 then f else if 1 / 2 < dy then f + 1 else if even f then f else f + 1)"
    by (simp add: rne_def Let_def f_def dy_def)
  ultimately show ?thesis
    by (simp split: if_splits)
next
  case False
  from assms have "\<lfloor>x\<rfloor> \<le> \<lfloor>y\<rfloor>" by (rule floor_mono)
  with False have "\<lfloor>x\<rfloor> + 1 \<le> \<lfloor>y\<rfloor>" by simp
  with rne_bounds(2) [of x] rne_bounds(1) [of y] show ?thesis by linarith
qed

lemma floor_minus_nonint:
  assumes "x \<noteq> of_int \<lfloor>x\<rfloor>"
  shows "\<lfloor>- x\<rfloor> = - \<lfloor>x\<rfloor> - 1"
proof (rule floor_unique)
  have le: "of_int \<lfloor>x\<rfloor> \<le> x" by (rule of_int_floor_le)
  from assms have "of_int \<lfloor>x\<rfloor> \<noteq> x" by (rule not_sym)
  from this le have lt: "of_int \<lfloor>x\<rfloor> < x" by (rule order.not_eq_order_implies_strict)
  have "x < of_int \<lfloor>x\<rfloor> + 1" by linarith
  then show "of_int (- \<lfloor>x\<rfloor> - 1) \<le> - x" by simp
  from lt show "- x < of_int (- \<lfloor>x\<rfloor> - 1) + 1" by simp
qed

lemma rne_minus: "rne (- x) = - rne x"
proof (cases "x = of_int \<lfloor>x\<rfloor>")
  case True
  then have "rne x = \<lfloor>x\<rfloor>" by (metis rne_of_int)
  moreover from True have "- x = of_int (- \<lfloor>x\<rfloor>)" by simp
  then have "rne (- x) = - \<lfloor>x\<rfloor>" by (simp only: rne_of_int)
  ultimately show ?thesis by simp
next
  case False
  define f where "f = \<lfloor>x\<rfloor>"
  define d where "d = x - of_int f"
  have fl: "\<lfloor>- x\<rfloor> = - f - 1"
    unfolding f_def using False by (rule floor_minus_nonint)
  have d': "- x - of_int (- f - 1) = 1 - d"
    by (simp add: d_def)
  have ev: "even (- f - 1) \<longleftrightarrow> odd f" by simp
  have r: "rne x = (if d < 1 / 2 then f else if 1 / 2 < d then f + 1 else if even f then f else f + 1)"
    by (simp add: rne_def Let_def f_def d_def)
  have r': "rne (- x) = (if 1 - d < 1 / 2 then - f - 1 else if 1 / 2 < 1 - d then - f
      else if odd f then - f - 1 else - f)"
    unfolding rne_def Let_def fl d' ev by simp
  show ?thesis
    unfolding r r' by (simp split: if_splits)
qed

lemma two_powi_add: "(2 :: real) powi (a + b) = 2 powi a * 2 powi b"
  by (simp add: power_int_add)

lemma two_powi_le: "a \<le> b \<Longrightarrow> (2 :: real) powi a \<le> 2 powi b"
  by (rule power_int_increasing) simp_all

lemma two_powi_less_imp: "(2 :: real) powi a < 2 powi b \<Longrightarrow> a < b"
  using two_powi_le [of b a] by (cases "a < b") simp_all

lemma floor_log2_bounds:
  assumes "x \<noteq> 0"
  shows "2 powi \<lfloor>log 2 \<bar>x\<bar>\<rfloor> \<le> \<bar>x\<bar>" and "\<bar>x\<bar> < 2 powi (\<lfloor>log 2 \<bar>x\<bar>\<rfloor> + 1)"
proof -
  from assms have pos: "0 < \<bar>x\<bar>" by simp
  have "\<lfloor>log 2 \<bar>x\<bar>\<rfloor> = \<lfloor>log 2 \<bar>x\<bar>\<rfloor>" ..
  with floor_log_eq_powr_iff [OF pos, of 2 "\<lfloor>log 2 \<bar>x\<bar>\<rfloor>"]
  have b: "2 powr real_of_int \<lfloor>log 2 \<bar>x\<bar>\<rfloor> \<le> \<bar>x\<bar>"
      "\<bar>x\<bar> < 2 powr real_of_int (\<lfloor>log 2 \<bar>x\<bar>\<rfloor> + 1)"
    by simp_all
  from b(1) show "2 powi \<lfloor>log 2 \<bar>x\<bar>\<rfloor> \<le> \<bar>x\<bar>"
    by (simp add: powr_real_of_int')
  from b(2) show "\<bar>x\<bar> < 2 powi (\<lfloor>log 2 \<bar>x\<bar>\<rfloor> + 1)"
    by (simp only: powr_real_of_int' [of 2, simplified])
qed

lemma floor_log2_eq:
  assumes "x \<noteq> 0" and "2 powi e \<le> \<bar>x\<bar>" and "\<bar>x\<bar> < 2 powi (e + 1)"
  shows "\<lfloor>log 2 \<bar>x\<bar>\<rfloor> = e"
proof -
  from assms(1) have pos: "0 < \<bar>x\<bar>" by simp
  have "2 powr real_of_int e \<le> \<bar>x\<bar> \<and> \<bar>x\<bar> < 2 powr (real_of_int e + 1)"
    using assms(2,3) powr_real_of_int' [of 2 e] powr_real_of_int' [of 2 "e + 1"] by simp
  with floor_log_eq_powr_iff [OF pos, of 2 e] show ?thesis by simp
qed

lemma exponent64_upper:
  assumes "x \<noteq> 0"
  shows "\<bar>x\<bar> < 2 powi (exponent64 x + 1)"
proof -
  have "\<bar>x\<bar> < 2 powi (\<lfloor>log 2 \<bar>x\<bar>\<rfloor> + 1)"
    using assms by (rule floor_log2_bounds)
  also have "\<dots> \<le> 2 powi (exponent64 x + 1)"
    by (rule two_powi_le) (simp add: exponent64_def)
  finally show ?thesis .
qed

lemma exponent64_normal:
  assumes "x \<noteq> 0" and "- 1022 < exponent64 x"
  shows "2 powi exponent64 x \<le> \<bar>x\<bar>"
proof -
  from assms(2) have "exponent64 x = \<lfloor>log 2 \<bar>x\<bar>\<rfloor>"
    by (simp add: exponent64_def max_def split: if_splits)
  with floor_log2_bounds(1) [OF assms(1)] show ?thesis by simp
qed

lemma exponent64_mono:
  assumes "x \<noteq> 0" and "\<bar>x\<bar> \<le> \<bar>y\<bar>"
  shows "exponent64 x \<le> exponent64 y"
proof -
  from assms have "0 < \<bar>x\<bar>" by simp
  with assms(2) have "log 2 \<bar>x\<bar> \<le> log 2 \<bar>y\<bar>" by simp
  then have "\<lfloor>log 2 \<bar>x\<bar>\<rfloor> \<le> \<lfloor>log 2 \<bar>y\<bar>\<rfloor>" by (rule floor_mono)
  then show ?thesis unfolding exponent64_def by (intro max.mono) simp_all
qed

lemma exponent64_minus [simp]: "exponent64 (- x) = exponent64 x"
  by (simp add: exponent64_def)

lemma exponent64_eval:
  assumes "x \<noteq> 0" and "2 powi e \<le> \<bar>x\<bar>" and "\<bar>x\<bar> < 2 powi (e + 1)"
  shows "exponent64 x = max e (- 1022)"
  using floor_log2_eq [OF assms] by (simp add: exponent64_def)

lemma ulp64_pos [simp]: "0 < ulp64 x"
  by (simp add: ulp64_def)

lemma ulp64_nonneg [simp]: "0 \<le> ulp64 x"
  by (simp add: ulp64_def)

lemma ulp64_neq_0 [simp]: "ulp64 x \<noteq> 0"
  by (simp add: ulp64_def)

lemma ulp64_binade: "2 powi 53 * ulp64 x = 2 powi (exponent64 x + 1)"
  "2 powi 52 * ulp64 x = 2 powi exponent64 x"
proof -
  have "(2 :: real) powi (exponent64 x + 1) = 2 powi (53 + (exponent64 x - 52))"
    by (rule arg_cong [where f = "\<lambda>k. 2 powi k"]) simp
  then show "2 powi 53 * ulp64 x = 2 powi (exponent64 x + 1)"
    unfolding ulp64_def by (simp only: two_powi_add)
  have "(2 :: real) powi exponent64 x = 2 powi (52 + (exponent64 x - 52))"
    by (rule arg_cong [where f = "\<lambda>k. 2 powi k"]) simp
  then show "2 powi 52 * ulp64 x = 2 powi exponent64 x"
    unfolding ulp64_def by (simp only: two_powi_add)
qed

lemma ulp64_minus [simp]: "ulp64 (- x) = ulp64 x"
  by (simp add: ulp64_def)

lemma round64_0 [simp]: "round64 0 = 0"
  by (simp add: round64_def)

lemma round64_minus: "round64 (- x) = - round64 x"
  by (simp add: round64_def rne_minus)

lemma round64_nonneg:
  assumes "0 \<le> x"
  shows "0 \<le> round64 x"
proof (cases "x = 0")
  case True
  then show ?thesis by simp
next
  case False
  from assms have "0 \<le> x / ulp64 x" by (intro divide_nonneg_pos) simp_all
  then have "rne 0 \<le> rne (x / ulp64 x)" by (rule rne_mono)
  then have "0 \<le> rne (x / ulp64 x)" using rne_of_int [of 0] by simp
  with False show ?thesis by (simp add: round64_def)
qed

text \<open>Within its binade a positive number is rounded to a value of the closed binade.\<close>

lemma round64_le_binade:
  assumes "0 < x"
  shows "round64 x \<le> 2 powi (exponent64 x + 1)"
proof -
  let ?e = "exponent64 x"
  from assms have nz: "x \<noteq> 0" by simp
  have "x < 2 powi (?e + 1)"
    using exponent64_upper [OF nz] assms by simp
  also have "(2 :: real) powi (?e + 1) = 2 powi 53 * ulp64 x"
    by (simp only: ulp64_binade)
  finally have "x / ulp64 x < 2 powi 53"
    by (simp add: pos_divide_less_eq)
  then have "x / ulp64 x \<le> of_int (2 ^ 53)" by simp
  then have "rne (x / ulp64 x) \<le> rne (of_int (2 ^ 53))" by (rule rne_mono)
  then have "rne (x / ulp64 x) \<le> 2 ^ 53" by (simp only: rne_of_int)
  then have "of_int (rne (x / ulp64 x)) \<le> (2 :: real) ^ 53"
    by (metis of_int_le_iff of_int_numeral of_int_power)
  then have "of_int (rne (x / ulp64 x)) * ulp64 x \<le> 2 ^ 53 * ulp64 x"
    by (simp add: mult_right_mono)
  also have "2 ^ 53 * ulp64 x = 2 powi (?e + 1)"
    using ulp64_binade(1) [of x] by simp
  finally show ?thesis using nz by (simp add: round64_def)
qed

lemma round64_ge_binade:
  assumes "0 < x" and "- 1022 < exponent64 x"
  shows "2 powi exponent64 x \<le> round64 x"
proof -
  let ?e = "exponent64 x"
  from assms have nz: "x \<noteq> 0" by simp
  have e: "(2 :: real) powi ?e = 2 ^ 52 * ulp64 x"
    using ulp64_binade(2) [of x] by simp
  have "2 powi ?e \<le> x"
    using exponent64_normal [OF nz assms(2)] assms(1) by simp
  then have "of_int (2 ^ 52) \<le> x / ulp64 x"
    unfolding e by (simp add: pos_le_divide_eq)
  then have "rne (of_int (2 ^ 52)) \<le> rne (x / ulp64 x)" by (rule rne_mono)
  then have "2 ^ 52 \<le> rne (x / ulp64 x)" by (simp only: rne_of_int)
  then have "(2 :: real) ^ 52 \<le> of_int (rne (x / ulp64 x))"
    by (metis of_int_le_iff of_int_numeral of_int_power)
  then have "2 ^ 52 * ulp64 x \<le> of_int (rne (x / ulp64 x)) * ulp64 x"
    by (simp add: mult_right_mono)
  then show ?thesis using nz by (simp add: round64_def e)
qed

lemma round64_mono_pos:
  assumes "0 < x" and "x \<le> y"
  shows "round64 x \<le> round64 y"
proof -
  from assms have nz: "x \<noteq> 0" "y \<noteq> 0" and y: "0 < y" by simp_all
  have le: "exponent64 x \<le> exponent64 y"
    using nz(1) assms by (intro exponent64_mono) simp_all
  show ?thesis
  proof (cases "exponent64 x = exponent64 y")
    case True
    then have u: "ulp64 x = ulp64 y" by (simp add: ulp64_def)
    from assms(2) have "x / ulp64 y \<le> y / ulp64 y"
      by (intro divide_right_mono) simp_all
    then have "rne (x / ulp64 y) \<le> rne (y / ulp64 y)" by (rule rne_mono)
    then have "of_int (rne (x / ulp64 y)) * ulp64 y \<le> of_int (rne (y / ulp64 y)) * ulp64 y"
      by (simp add: mult_right_mono)
    with nz u show ?thesis by (simp add: round64_def)
  next
    case False
    with le have lt: "exponent64 x + 1 \<le> exponent64 y" by simp
    have "- 1022 \<le> exponent64 x" by (simp add: exponent64_def)
    with lt have normal: "- 1022 < exponent64 y" by simp
    have "round64 x \<le> 2 powi (exponent64 x + 1)"
      using assms(1) by (rule round64_le_binade)
    also have "\<dots> \<le> 2 powi exponent64 y"
      using lt by (rule two_powi_le)
    also have "\<dots> \<le> round64 y"
      using y normal by (rule round64_ge_binade)
    finally show ?thesis .
  qed
qed

lemma round64_mono:
  assumes "x \<le> y"
  shows "round64 x \<le> round64 y"
proof -
  consider "0 < x" | "x \<le> 0" "0 \<le> y" | "y < 0" by linarith
  then show ?thesis
  proof cases
    case 1
    with assms show ?thesis by (intro round64_mono_pos)
  next
    case 2
    then have "0 \<le> round64 y" by (intro round64_nonneg)
    moreover from 2 have "0 \<le> round64 (- x)" by (intro round64_nonneg) simp
    ultimately show ?thesis by (simp add: round64_minus)
  next
    case 3
    with assms have "round64 (- y) \<le> round64 (- x)" by (intro round64_mono_pos) simp_all
    then show ?thesis by (simp add: round64_minus)
  qed
qed

lemma round64_eval:
  assumes "x \<noteq> 0" and "2 powi e \<le> \<bar>x\<bar>" and "\<bar>x\<bar> < 2 powi (e + 1)" and "- 1022 \<le> e"
    and "rne (x / 2 powi (e - 52)) = k"
  shows "round64 x = of_int k * 2 powi (e - 52)"
proof -
  have "exponent64 x = e"
    using exponent64_eval [OF assms(1-3)] assms(4) by simp
  with assms(1,5) show ?thesis
    by (simp add: round64_def ulp64_def)
qed

lemma round64_representable:
  assumes "\<bar>m\<bar> < 2 ^ 53" and "- 1074 \<le> j"
  shows "round64 (of_int m * 2 powi j) = of_int m * 2 powi j"
proof (cases "m = 0")
  case True
  then show ?thesis by simp
next
  case False
  define x :: real where "x = of_int m * 2 powi j"
  define u where "u = ulp64 x"
  from False have nz: "x \<noteq> 0" by (simp add: x_def)
  have u: "0 < u" by (simp add: u_def)
  have abs: "\<bar>x\<bar> = of_int \<bar>m\<bar> * 2 powi j"
    by (simp add: x_def abs_mult)
  have "of_int \<bar>m\<bar> < (2 :: real) ^ 53"
    using assms(1) by (metis of_int_less_iff of_int_numeral of_int_power)
  then have "\<bar>x\<bar> < 2 powi 53 * 2 powi j"
    unfolding abs by (simp add: mult_strict_right_mono)
  then have up: "\<bar>x\<bar> < 2 powi (53 + j)"
    by (simp only: two_powi_add)
  have "2 powi \<lfloor>log 2 \<bar>x\<bar>\<rfloor> \<le> \<bar>x\<bar>"
    using nz by (rule floor_log2_bounds)
  with up have "(2 :: real) powi \<lfloor>log 2 \<bar>x\<bar>\<rfloor> < 2 powi (53 + j)" by simp
  then have "\<lfloor>log 2 \<bar>x\<bar>\<rfloor> < 53 + j" by (rule two_powi_less_imp)
  with assms(2) have e: "exponent64 x - 52 \<le> j"
    by (simp add: exponent64_def)
  define d where "d = nat (j - (exponent64 x - 52))"
  from e have j: "j = int d + (exponent64 x - 52)" by (simp add: d_def)
  have "(2 :: real) powi j = 2 powi (int d) * 2 powi (exponent64 x - 52)"
    by (subst j) (rule two_powi_add)
  then have pj: "(2 :: real) powi j = 2 ^ d * u"
    by (simp add: ulp64_def u_def)
  have xu: "x = of_int (m * 2 ^ d) * u"
    by (simp add: x_def pj)
  have "x / u = of_int (m * 2 ^ d)"
    using u by (simp add: xu)
  then have "rne (x / u) = m * 2 ^ d"
    by (simp only: rne_of_int)
  then have "round64 x = of_int (m * 2 ^ d) * u"
    using nz by (simp add: round64_def u_def)
  then have "round64 x = x" by (simp only: xu [symmetric])
  then show ?thesis by (simp only: x_def)
qed

lemma round64_of_int:
  assumes "\<bar>m\<bar> < 2 ^ 53"
  shows "round64 (of_int m) = of_int m"
  using round64_representable [OF assms, of 0] by simp

lemma min_subnormal_pos [simp]: "0 < min_subnormal"
  by (simp only: min_subnormal_def zero_less_power_int zero_less_numeral)

lemma min_subnormal_nonneg [simp]: "0 \<le> min_subnormal"
  using min_subnormal_pos by (rule less_imp_le)

lemma round64_on_grid: "\<exists>k. round64 x = of_int k * min_subnormal"
proof (cases "x = 0")
  case True
  then have "round64 x = of_int 0 * min_subnormal" by simp
  then show ?thesis ..
next
  case False
  define d where "d = nat (exponent64 x + 1022)"
  have "- 1022 \<le> exponent64 x" by (simp add: exponent64_def)
  then have "exponent64 x - 52 = int d + (- 1074)" by (simp add: d_def)
  then have "ulp64 x = 2 powi (int d) * min_subnormal"
    unfolding ulp64_def min_subnormal_def by (simp only: two_powi_add)
  then have u: "ulp64 x = 2 ^ d * min_subnormal"
    by (simp only: power_int_of_nat)
  have "round64 x = of_int (rne (x / ulp64 x)) * ulp64 x"
    using False by (simp add: round64_def)
  also have "\<dots> = of_int (rne (x / ulp64 x) * 2 ^ d) * min_subnormal"
    by (subst (2) u) simp
  finally show ?thesis ..
qed

lemma round64_underflow:
  assumes "\<bar>x\<bar> \<le> min_subnormal / 2"
  shows "round64 x = 0"
proof (cases "x = 0")
  case True
  then show ?thesis by simp
next
  case False
  have "2 powi \<lfloor>log 2 \<bar>x\<bar>\<rfloor> \<le> \<bar>x\<bar>"
    using False by (rule floor_log2_bounds)
  also have "\<bar>x\<bar> < min_subnormal"
    using assms min_subnormal_pos by linarith
  finally have "(2 :: real) powi \<lfloor>log 2 \<bar>x\<bar>\<rfloor> < 2 powi (- 1074)"
    by (simp only: min_subnormal_def)
  then have "\<lfloor>log 2 \<bar>x\<bar>\<rfloor> < - 1074" by (rule two_powi_less_imp)
  then have e: "exponent64 x = - 1022" by (simp add: exponent64_def)
  have "ulp64 x = 2 powi (- 1022 - 52)" by (simp only: ulp64_def e)
  then have u: "ulp64 x = min_subnormal" by (simp only: min_subnormal_def) simp
  have u': "ulp64 \<bar>x\<bar> = min_subnormal"
    using u by (simp add: ulp64_def exponent64_def)
  define q where "q = \<bar>x\<bar> / min_subnormal"
  have half: "q \<le> 1 / 2"
    using assms by (simp add: q_def pos_divide_le_eq)
  have pos: "0 < q"
    using False by (simp add: q_def)
  have fl: "\<lfloor>q\<rfloor> = 0"
    using half pos by (intro floor_unique) simp_all
  have "rne q = 0"
    using half by (simp add: rne_def Let_def fl)
  then have "round64 \<bar>x\<bar> = 0"
    using False by (simp add: round64_def u' q_def)
  then show ?thesis
    by (cases "0 \<le> x") (simp_all add: round64_minus abs_if)
qed

lemma round64_min_subnormal: "round64 min_subnormal = min_subnormal"
  unfolding min_subnormal_def using round64_representable [of 1 "- 1074"]
  by (simp only: of_int_1 mult_1) simp

lemma round64_difference_pos:
  assumes "a = of_int ka * min_subnormal" and "b = of_int kb * min_subnormal" and "b < a"
  shows "0 < round64 (a - b)"
proof -
  from assms have "of_int kb * min_subnormal < of_int ka * min_subnormal" by simp
  then have "(of_int kb :: real) < of_int ka"
    using min_subnormal_pos by (simp add: mult_less_cancel_right less_imp_le)
  then have "kb < ka" by simp
  then have "1 \<le> ka - kb" by simp
  then have "(1 :: real) \<le> of_int (ka - kb)" by (metis of_int_1_le_iff)
  then have "1 * min_subnormal \<le> of_int (ka - kb) * min_subnormal"
    by (intro mult_right_mono) simp_all
  also have "\<dots> = a - b"
    by (simp add: assms(1,2) algebra_simps)
  finally have "round64 min_subnormal \<le> round64 (a - b)"
    by (intro round64_mono) simp
  then have "min_subnormal \<le> round64 (a - b)"
    by (simp only: round64_min_subnormal)
  with min_subnormal_pos show ?thesis by (rule less_le_trans)
qed

section \<open>Operations in float64\<close>

lemma then_f64_Inr [simp]: "then_f64 (Inr x) k = k x"
  by (simp add: then_f64_def)

lemma then_f64_Inl [simp]: "then_f64 (Inl e) k = Inl e"
  by (simp add: then_f64_def)

lemma then_f64_eq_Inr: "then_f64 m k = Inr y \<longleftrightarrow> (\<exists>x. m = Inr x \<and> k x = Inr y)"
  by (cases m) simp_all

lemma then_f64_eq_Inl: "then_f64 m k = Inl e \<longleftrightarrow> m = Inl e \<or> (\<exists>x. m = Inr x \<and> k x = Inl e)"
  by (cases m) simp_all

lemma f64_eq_Inr: "f64 x = Inr y \<Longrightarrow> y = round64 x"
  by (simp add: f64_def split: if_splits)

lemma f64_eq_Inl: "f64 x = Inl e \<Longrightarrow> e = NonFinite"
  by (simp add: f64_def split: if_splits)

lemma map_f64_eq_Inr: "map_f64 f xs = Inr ys \<longleftrightarrow> list_all2 (\<lambda>x y. f x = Inr y) xs ys"
proof (induction xs arbitrary: ys)
  case Nil
  then show ?case by auto
next
  case (Cons x xs)
  show ?case
  proof (cases ys)
    case Nil
    then show ?thesis by (auto simp add: then_f64_eq_Inr)
  next
    case (Cons y ys')
    with Cons.IH [of ys'] show ?thesis by (auto simp add: then_f64_eq_Inr)
  qed
qed

lemma map_f64_eq_Inl:
  "map_f64 f xs = Inl e \<Longrightarrow> \<exists>x \<in> set xs. f x = Inl e"
  by (induction xs) (auto simp add: then_f64_eq_Inl)

lemma map_f64_map:
  assumes "map_f64 f xs = Inr ys" and "\<And>x y. x \<in> set xs \<Longrightarrow> f x = Inr y \<Longrightarrow> y = g x"
  shows "ys = map g xs"
proof -
  from assms(1) have "list_all2 (\<lambda>x y. f x = Inr y) xs ys" by (simp only: map_f64_eq_Inr)
  then show ?thesis using assms(2)
    by (induction rule: list_all2_induct) auto
qed

lemma map_f64_length: "map_f64 f xs = Inr ys \<Longrightarrow> length ys = length xs"
  by (simp add: map_f64_eq_Inr list_all2_lengthD)

lemma map_f64_nth:
  "map_f64 f xs = Inr ys \<Longrightarrow> i < length xs \<Longrightarrow> f (xs ! i) = Inr (ys ! i)"
  unfolding map_f64_eq_Inr by (rule list_all2_nthD)

declare pairwise_sum_f64.simps [simp del]
declare accumulate8_f64.simps [simp del]

section \<open>A float64 computation fails only by a value that is not finite\<close>

lemma sum_loop_f64_eq_Inl: "sum_loop_f64 r xs = Inl e \<Longrightarrow> e = NonFinite"
  by (induction xs arbitrary: r) (auto simp add: then_f64_eq_Inl dest: f64_eq_Inl)

lemma accumulate8_f64_eq_Inl: "accumulate8_f64 r a = Inl e \<Longrightarrow> e = NonFinite"
proof (induction r a rule: accumulate8_f64.induct)
  case (1 r a)
  show ?case
  proof (cases "length a < 8")
    case True
    with "1.prems" show ?thesis by (simp add: accumulate8_f64.simps)
  next
    case False
    with "1.prems" consider "map_f64 (\<lambda>(x, y). f64 (x + y)) (zip r (take 8 a)) = Inl e"
      | r' where "map_f64 (\<lambda>(x, y). f64 (x + y)) (zip r (take 8 a)) = Inr r'"
          "accumulate8_f64 r' (drop 8 a) = Inl e"
      by (subst (asm) accumulate8_f64.simps) (auto simp add: then_f64_eq_Inl)
    then show ?thesis
    proof cases
      case 1
      then show ?thesis by (auto dest!: map_f64_eq_Inl dest: f64_eq_Inl)
    next
      case 2
      with False "1.IH" show ?thesis by blast
    qed
  qed
qed

lemma combine8_f64_eq_Inl: "combine8_f64 r = Inl e \<Longrightarrow> e = NonFinite"
  by (auto simp add: combine8_f64_def then_f64_eq_Inl dest: f64_eq_Inl)

lemma pairwise_sum_f64_eq_Inl: "pairwise_sum_f64 a = Inl e \<Longrightarrow> e = NonFinite"
proof (induction a rule: pairwise_sum_f64.induct)
  case (1 a)
  consider "length a < 8" | "\<not> length a < 8" "length a \<le> 128" | "\<not> length a < 8" "\<not> length a \<le> 128"
    by blast
  then show ?case
  proof cases
    case 1
    with "1.prems" show ?thesis
      by (subst (asm) pairwise_sum_f64.simps) (auto simp add: Let_def dest: sum_loop_f64_eq_Inl)
  next
    case 2
    with "1.prems" show ?thesis
      by (subst (asm) pairwise_sum_f64.simps)
        (auto simp add: Let_def then_f64_eq_Inl
          dest: sum_loop_f64_eq_Inl accumulate8_f64_eq_Inl combine8_f64_eq_Inl)
  next
    case 3
    let ?n2 = "length a div 2 - length a div 2 mod 8"
    from 3 "1.prems" consider "pairwise_sum_f64 (take ?n2 a) = Inl e"
      | "pairwise_sum_f64 (drop ?n2 a) = Inl e"
      | x y where "f64 (x + y) = Inl e"
      by (subst (asm) pairwise_sum_f64.simps) (auto simp add: Let_def then_f64_eq_Inl)
    then show ?thesis
    proof cases
      case 1
      with 3 "1.IH"(1) [OF refl] show ?thesis by blast
    next
      case 2
      with 3 "1.IH"(2) [OF refl] show ?thesis by blast
    next
      case 3
      then show ?thesis by (rule f64_eq_Inl)
    qed
  qed
qed

lemma np_mean_f64_eq_Inl: "np_mean_f64 xs = Inl e \<Longrightarrow> e = NonFinite"
  by (auto simp add: np_mean_f64_def then_f64_eq_Inl split: if_splits
      dest: pairwise_sum_f64_eq_Inl f64_eq_Inl)

lemma np_mean_f64_eq_Inr: "np_mean_f64 xs = Inr m \<Longrightarrow> \<exists>x. m = round64 x"
  by (auto simp add: np_mean_f64_def then_f64_eq_Inr split: if_splits dest: f64_eq_Inr)

lemma mean_axis1_f64_eq_Inl: "mean_axis1_f64 P = Inl e \<Longrightarrow> e = NonFinite"
  by (auto simp add: mean_axis1_f64_def split: if_splits dest!: map_f64_eq_Inl dest: np_mean_f64_eq_Inl)

lemma mean_axis1_f64_eq_Inr:
  assumes "mean_axis1_f64 P = Inr ms"
  shows "length ms = length P" and "\<And>m. m \<in> set ms \<Longrightarrow> \<exists>x. m = round64 x"
proof -
  from assms have m: "map_f64 np_mean_f64 P = Inr ms"
    by (simp add: mean_axis1_f64_def split: if_splits)
  then show "length ms = length P" by (rule map_f64_length)
  fix m assume "m \<in> set ms"
  then obtain i where i: "i < length ms" "m = ms ! i" by (auto simp add: in_set_conv_nth)
  with map_f64_length [OF m] have "i < length P" by simp
  from map_f64_nth [OF m this] i show "\<exists>x. m = round64 x"
    by (auto dest: np_mean_f64_eq_Inr)
qed

lemma discount_f64_eq_Inl: "discount_f64 r T = Inl e \<Longrightarrow> e = NonFinite"
  by (auto simp add: discount_f64_def then_f64_eq_Inl dest: f64_eq_Inl)

section \<open>Evaluating float64 operations\<close>

lemma f64_eval:
  assumes "2 powi e \<le> \<bar>x\<bar>" and "\<bar>x\<bar> < 2 powi (e + 1)" and "- 1022 \<le> e"
    and "rne (x / 2 powi (e - 52)) = k" and "y = of_int k * 2 powi (e - 52)"
    and "\<bar>y\<bar> < 2 ^ 1024"
  shows "f64 x = Inr y"
proof -
  have "(0 :: real) < 2 powi e" by (rule zero_less_power_int) simp
  from this assms(1) have "0 < \<bar>x\<bar>" by (rule less_le_trans)
  then have "x \<noteq> 0" by simp
  then have "round64 x = y"
    using round64_eval [OF _ assms(1-4)] assms(5) by simp
  with assms(6) show ?thesis by (simp add: f64_def)
qed

lemma f64_of_int:
  assumes "\<bar>m\<bar> < 2 ^ 53"
  shows "f64 (of_int m) = Inr (of_int m)"
proof -
  have r: "round64 (of_int m :: real) = of_int m" using assms by (rule round64_of_int)
  have "\<bar>of_int m :: real\<bar> = of_int \<bar>m\<bar>" by simp
  also have "\<dots> < of_int (2 ^ 53)" using assms by (simp only: of_int_less_iff)
  also have "\<dots> < (2 :: real) ^ 1024" by simp
  finally show ?thesis by (simp add: f64_def r)
qed

lemma f64_0 [simp]: "f64 0 = Inr 0"
  using f64_of_int [of 0] by simp

lemma f64_1 [simp]: "f64 1 = Inr 1"
  using f64_of_int [of 1] by simp

lemma f64_numeral: "numeral n < (2 :: int) ^ 53 \<Longrightarrow> f64 (numeral n) = Inr (numeral n)"
  using f64_of_int [of "numeral n"] by simp

lemma f64_neg_numeral: "numeral n < (2 :: int) ^ 53 \<Longrightarrow> f64 (- numeral n) = Inr (- numeral n)"
  using f64_of_int [of "- numeral n"] by simp

section \<open>Asian and lookback payoffs in float64\<close>

lemma pairwise_sum_f64_short: "length a < 8 \<Longrightarrow> pairwise_sum_f64 a = sum_loop_f64 0 a"
  by (subst pairwise_sum_f64.simps) (simp add: Let_def)

lemma payoffs_Asian_f64_eq_Inl: "payoffs_Asian_f64 P K = Inl e \<Longrightarrow> e = NonFinite"
  by (auto simp add: payoffs_Asian_f64_def then_f64_eq_Inl
      dest: mean_axis1_f64_eq_Inl f64_eq_Inl dest!: map_f64_eq_Inl)

lemma payoffs_Asian_f64_eq_Inr:
  assumes "payoffs_Asian_f64 P K = Inr a"
  shows "\<exists>ms. mean_axis1_f64 P = Inr ms \<and> a = map (\<lambda>m. max 0 (round64 (m - K))) ms"
proof -
  from assms obtain ms where ms: "mean_axis1_f64 P = Inr ms"
    and a: "map_f64 (\<lambda>m. then_f64 (f64 (m - K)) (\<lambda>x. Inr (max 0 x))) ms = Inr a"
    by (auto simp add: payoffs_Asian_f64_def then_f64_eq_Inr)
  from a have "a = map (\<lambda>m. max 0 (round64 (m - K))) ms"
    by (rule map_f64_map) (auto simp add: then_f64_eq_Inr dest: f64_eq_Inr)
  with ms show ?thesis by blast
qed

lemma Max_round64_diff:
  assumes "xs \<noteq> []"
  shows "Max (set (map (\<lambda>x. round64 (x - K)) xs)) = round64 (Max (set xs) - K)"
proof -
  have "mono (\<lambda>x. round64 (x - K))"
    by (rule monoI) (simp add: round64_mono)
  from mono_Max_commute [OF this, of "set xs"] assms show ?thesis by simp
qed

lemma differences_f64_eq_Inr:
  assumes "map_f64 (map_f64 (\<lambda>x. f64 (x - K))) P = Inr D"
  shows "D = map (map (\<lambda>x. round64 (x - K))) P"
  using assms
proof (rule map_f64_map)
  fix row drow
  assume "map_f64 (\<lambda>x. f64 (x - K)) row = Inr drow"
  then show "drow = map (\<lambda>x. round64 (x - K)) row"
    by (rule map_f64_map) (auto dest: f64_eq_Inr)
qed

lemma payoffs_lookback_call_f64_eq_Inl:
  assumes "[] \<notin> set P" and "payoffs_lookback_call_f64 P K = Inl e"
  shows "e = NonFinite"
proof -
  from assms(2) consider "map_f64 (map_f64 (\<lambda>x. f64 (x - K))) P = Inl e"
    | D where "map_f64 (map_f64 (\<lambda>x. f64 (x - K))) P = Inr D" "amax_axis1 D = Inl e"
    by (auto simp add: payoffs_lookback_call_f64_def then_f64_eq_Inl)
  then show ?thesis
  proof cases
    case 1
    then show ?thesis by (auto dest!: map_f64_eq_Inl dest: f64_eq_Inl)
  next
    case 2
    from 2(1) have "D = map (map (\<lambda>x. round64 (x - K))) P" by (rule differences_f64_eq_Inr)
    with assms(1) have "[] \<notin> set D" by auto
    with 2(2) show ?thesis by (simp add: amax_axis1_def)
  qed
qed

lemma payoffs_lookback_call_f64_eq_Inr:
  assumes "[] \<notin> set P" and "payoffs_lookback_call_f64 P K = Inr l"
  shows "l = map (\<lambda>row. max 0 (round64 (Max (set row) - K))) P"
proof -
  from assms(2) obtain D ms where D: "map_f64 (map_f64 (\<lambda>x. f64 (x - K))) P = Inr D"
    and ms: "amax_axis1 D = Inr ms" and l: "l = map (max 0) ms"
    by (auto simp add: payoffs_lookback_call_f64_def then_f64_eq_Inr)
  from D have D': "D = map (map (\<lambda>x. round64 (x - K))) P" by (rule differences_f64_eq_Inr)
  with assms(1) have "[] \<notin> set D" by auto
  with ms have "ms = map (\<lambda>row. Max (set row)) D" by (simp add: amax_axis1_def)
  also have "\<dots> = map (\<lambda>row. round64 (Max (set row) - K)) P"
  proof -
    have "Max (set (map (\<lambda>x. round64 (x - K)) row)) = round64 (Max (set row) - K)"
      if "row \<in> set P" for row
      using that assms(1) by (intro Max_round64_diff) auto
    then show ?thesis unfolding D' by (simp del: set_map)
  qed
  finally show ?thesis by (simp add: l)
qed

lemma replicate_6: "replicate 6 x = [x, x, x, x, x, x]"
  by (simp add: numeral_eq_Suc)

text \<open>
  Claim C10 says that the lookback call payoff of a row is at least its Asian call payoff,
  the maximum of a row being at least its mean. The mean that \<^verbatim>\<open>np.mean\<close> computes can
  exceed the maximum. With \<^verbatim>\<open>spot_price = 110.1\<close>, six time steps of length 1 and neither
  drift nor volatility, every price of the one row is the float64 value of 110.1. The sum
  of the six prices is rounded on the way, and the computed mean is the next float64 value
  above the prices. With the strike price 105 the Asian payoff is 5.1000000000000085 and
  the lookback payoff is 5.099999999999994.
\<close>

theorem lookback_payoff_below_Asian_payoff:
  "round64 (1101 / 10) = 3873799366980403 / 35184372088832 \<and>
   prices_f64 mean_rounding_parameters zero_draws =
     Inr [replicate 6 (3873799366980403 / 35184372088832)] \<and>
   payoffs_Asian_f64 [replicate 6 (3873799366980403 / 35184372088832)] 105 =
     Inr [358880595306087 / 70368744177664] \<and>
   payoffs_lookback_call_f64 [replicate 6 (3873799366980403 / 35184372088832)] 105 =
     Inr [179440297653043 / 35184372088832] \<and>
   (179440297653043 / 35184372088832 :: real) < 358880595306087 / 70368744177664"
proof (intro conjI)
  have lit: "f64 (1101 / 10) = Inr (3873799366980403 / 35184372088832)"
    by (rule f64_eval [where e = 6 and k = 7747598733960806]) (simp_all add: rne_def Let_def)
  then show "round64 (1101 / 10) = 3873799366980403 / 35184372088832"
    by (auto dest: f64_eq_Inr)
  have s0: "f64 (3873799366980403 / 35184372088832) = Inr (3873799366980403 / 35184372088832)"
    by (rule f64_eval [where e = "6" and k = 7747598733960806]) (simp_all add: rne_def Let_def)
  have s1: "f64 (3873799366980403 / 17592186044416) = Inr (3873799366980403 / 17592186044416)"
    by (rule f64_eval [where e = "7" and k = 7747598733960806]) (simp_all add: rne_def Let_def)
  have s2: "f64 (11621398100941209 / 35184372088832) = Inr (1452674762617651 / 4398046511104)"
    by (rule f64_eval [where e = "8" and k = 5810699050470604]) (simp_all add: rne_def Let_def)
  have s3: "f64 (15495197467921611 / 35184372088832) = Inr (3873799366980403 / 8796093022208)"
    by (rule f64_eval [where e = "8" and k = 7747598733960806]) (simp_all add: rne_def Let_def)
  have s4: "f64 (19368996834902015 / 35184372088832) = Inr (1101 / 2)"
    by (rule f64_eval [where e = "9" and k = 4842249208725504]) (simp_all add: rne_def Let_def)
  have s5: "f64 (23242796201882419 / 35184372088832) = Inr (5810699050470605 / 8796093022208)"
    by (rule f64_eval [where e = "9" and k = 5810699050470605]) (simp_all add: rne_def Let_def)
  have sm: "f64 (5810699050470605 / 52776558133248) = Inr (7747598733960807 / 70368744177664)"
    by (rule f64_eval [where e = "6" and k = 7747598733960807]) (simp_all add: rne_def Let_def)
  have sd: "f64 (358880595306087 / 70368744177664) = Inr (358880595306087 / 70368744177664)"
    by (rule f64_eval [where e = "2" and k = 5742089524897392]) (simp_all add: rne_def Let_def)
  have sl: "f64 (179440297653043 / 35184372088832) = Inr (179440297653043 / 35184372088832)"
    by (rule f64_eval [where e = "2" and k = 5742089524897376]) (simp_all add: rne_def Let_def)
  show "prices_f64 mean_rounding_parameters zero_draws =
     Inr [replicate 6 (3873799366980403 / 35184372088832)]"
    by (simp add: prices_f64_def mean_rounding_parameters_def dt_f64_def random_normal_def
        zero_draws_def upt_rec ratio_matrix_f64_def ratio_f64_def drift_f64_def
        scale_cumprod_f64_def cumprod_f64_def replicate_6 s0)
  show "payoffs_Asian_f64 [replicate 6 (3873799366980403 / 35184372088832)] 105 =
     Inr [358880595306087 / 70368744177664]"
    by (simp add: payoffs_Asian_f64_def mean_axis1_f64_def np_mean_f64_def
        pairwise_sum_f64_short replicate_6 s0 s1 s2 s3 s4 s5 sm sd)
  show "payoffs_lookback_call_f64 [replicate 6 (3873799366980403 / 35184372088832)] 105 =
     Inr [179440297653043 / 35184372088832]"
    by (simp add: payoffs_lookback_call_f64_def amax_axis1_def replicate_6 sl)
  show "(179440297653043 / 35184372088832 :: real) < 358880595306087 / 70368744177664"
    by simp
qed

text \<open>
  Claim C10, as it holds of the float64 computation. For a price matrix without an empty
  row and a strike \<open>K\<close>, either one of the two payoff computations yields a value that is
  not finite, or both return one payoff per row: the Asian payoff of row \<open>i\<close> is
  \<open>max 0 (round64 (m\<^sub>i - K))\<close>, where \<open>m\<^sub>i\<close> is the mean of the row as \<^verbatim>\<open>np.mean\<close> computes it,
  the lookback payoff is \<open>max 0 (round64 (Max row\<^sub>i - K))\<close>, both are non-negative, and the
  lookback payoff is at least the Asian payoff in every row whose computed mean does not
  exceed the maximum of the row.
\<close>

theorem lookback_and_Asian_payoffs_f64:
  assumes "[] \<notin> set P"
  shows "payoffs_Asian_f64 P K = Inl NonFinite \<or> payoffs_lookback_call_f64 P K = Inl NonFinite \<or>
    (\<exists>ms a l. mean_axis1_f64 P = Inr ms \<and> payoffs_Asian_f64 P K = Inr a \<and>
       payoffs_lookback_call_f64 P K = Inr l \<and>
       length ms = length P \<and> length a = length P \<and> length l = length P \<and>
       (\<forall>i < length P.
          np_mean_f64 (P ! i) = Inr (ms ! i) \<and>
          a ! i = max 0 (round64 (ms ! i - K)) \<and>
          l ! i = max 0 (round64 (Max (set (P ! i)) - K)) \<and>
          0 \<le> a ! i \<and> 0 \<le> l ! i \<and>
          (ms ! i \<le> Max (set (P ! i)) \<longrightarrow> a ! i \<le> l ! i)))"
proof (cases "payoffs_Asian_f64 P K")
  case (Inl e)
  then show ?thesis by (auto dest: payoffs_Asian_f64_eq_Inl)
next
  case a: (Inr a)
  show ?thesis
  proof (cases "payoffs_lookback_call_f64 P K")
    case (Inl e)
    with assms show ?thesis by (auto dest: payoffs_lookback_call_f64_eq_Inl)
  next
    case l: (Inr l)
    from a obtain ms where ms: "mean_axis1_f64 P = Inr ms"
      and a': "a = map (\<lambda>m. max 0 (round64 (m - K))) ms"
      by (auto dest: payoffs_Asian_f64_eq_Inr)
    from ms have len: "length ms = length P" by (rule mean_axis1_f64_eq_Inr)
    from assms l have l': "l = map (\<lambda>row. max 0 (round64 (Max (set row) - K))) P"
      by (rule payoffs_lookback_call_f64_eq_Inr)
    from ms have mm: "map_f64 np_mean_f64 P = Inr ms"
      by (simp add: mean_axis1_f64_def split: if_splits)
    have "\<forall>i < length P.
          np_mean_f64 (P ! i) = Inr (ms ! i) \<and>
          a ! i = max 0 (round64 (ms ! i - K)) \<and>
          l ! i = max 0 (round64 (Max (set (P ! i)) - K)) \<and>
          0 \<le> a ! i \<and> 0 \<le> l ! i \<and>
          (ms ! i \<le> Max (set (P ! i)) \<longrightarrow> a ! i \<le> l ! i)"
    proof (intro allI impI conjI)
      fix i assume i: "i < length P"
      from mm i show "np_mean_f64 (P ! i) = Inr (ms ! i)" by (rule map_f64_nth)
      from i len show ai: "a ! i = max 0 (round64 (ms ! i - K))" by (simp add: a')
      from i show li: "l ! i = max 0 (round64 (Max (set (P ! i)) - K))" by (simp add: l')
      from ai show "0 \<le> a ! i" by simp
      from li show "0 \<le> l ! i" by simp
      assume "ms ! i \<le> Max (set (P ! i))"
      then have "round64 (ms ! i - K) \<le> round64 (Max (set (P ! i)) - K)"
        by (intro round64_mono) simp
      then show "a ! i \<le> l ! i"
        unfolding ai li by (intro max.mono) simp_all
    qed
    with ms a l len show ?thesis by (simp add: a' l')
  qed
qed

theorem lookback_and_Asian_payoffs_f64_witness:
  "payoffs_Asian_f64 [[100, 120], [90, 100]] 105 = Inr [5, 0] \<and>
   payoffs_lookback_call_f64 [[100, 120], [90, 100]] 105 = Inr [15, 0]"
proof -
  let ?P = "[[100, 120], [90, 100 :: real]]"
  have a: "payoffs_Asian_f64 ?P 105 = Inr [5, 0]"
    by (simp add: payoffs_Asian_f64_def mean_axis1_f64_def np_mean_f64_def
        pairwise_sum_f64_short f64_numeral f64_neg_numeral)
  have l: "payoffs_lookback_call_f64 ?P 105 = Inr [15, 0]"
    by (simp add: payoffs_lookback_call_f64_def amax_axis1_def f64_numeral f64_neg_numeral)
  have "[] \<notin> set ?P" by simp
  from lookback_and_Asian_payoffs_f64 [OF this, of 105] a l show ?thesis by simp
qed

section \<open>Binary option in float64\<close>

lemma Asian_payoff_nonzero_iff:
  assumes "round64 K = K" and "m = round64 x"
  shows "max 0 (round64 (m - K)) \<noteq> 0 \<longleftrightarrow> K < m"
proof (cases "K < m")
  case True
  from round64_on_grid [of x] assms(2) obtain km where km: "m = of_int km * min_subnormal"
    by auto
  from round64_on_grid [of K] assms(1) obtain kk where kk: "K = of_int kk * min_subnormal"
    by auto
  from km kk True have "0 < round64 (m - K)" by (rule round64_difference_pos)
  with True show ?thesis by simp
next
  case False
  then have "m - K \<le> 0" by simp
  then have "round64 (m - K) \<le> round64 0" by (rule round64_mono)
  then have "max 0 (round64 (m - K)) = 0" by simp
  with False show ?thesis by simp
qed

lemma count_nonzero_Asian_payoffs:
  assumes "round64 K = K" and "\<And>m. m \<in> set ms \<Longrightarrow> \<exists>x. m = round64 x"
  shows "length (filter (\<lambda>x. x \<noteq> 0) (map (\<lambda>m. max 0 (round64 (m - K))) ms)) =
         length (filter (\<lambda>m. K < m) ms)"
proof -
  have "filter (\<lambda>m. max 0 (round64 (m - K)) \<noteq> 0) ms = filter (\<lambda>m. K < m) ms"
  proof (rule filter_cong [OF refl])
    fix m assume "m \<in> set ms"
    then obtain x where "m = round64 x" using assms(2) by blast
    with assms(1) show "(max 0 (round64 (m - K)) \<noteq> 0) = (K < m)"
      by (rule Asian_payoff_nonzero_iff)
  qed
  then show ?thesis by (simp add: filter_map comp_def)
qed

lemma binaryoption_f64_eq_Inl:
  assumes "N \<noteq> 0" and "binaryoption_f64 P K N r T = Inl e"
  shows "e = NonFinite"
  using assms
  by (auto simp add: binaryoption_f64_def binarypayoffs_f64_def then_f64_eq_Inl
      dest: payoffs_Asian_f64_eq_Inl f64_eq_Inl discount_f64_eq_Inl)

lemma f64_half: "f64 (1 / 2) = Inr (1 / 2)"
  by (rule f64_eval [where e = "- 1" and k = 4503599627370496]) (simp_all add: rne_def Let_def)

lemma discount_f64_0 [simp]: "discount_f64 0 T = Inr 1"
  by (simp add: discount_f64_def)

text \<open>
  Claim C9 says that a row pays 1 exactly when its mean is strictly greater than the strike
  price. With \<^verbatim>\<open>spot_price = 105.1\<close>, \<^verbatim>\<open>strike_price = 105.1\<close>, six time steps of length
  1 and neither drift nor volatility, every price of the one row is the strike price, and
  so is the mean of the row: the claim gives the payoff 0 and the price 0. The mean that
  \<^verbatim>\<open>np.mean\<close> computes is the next float64 value above the strike price, the Asian payoff
  is \<open>2\<^sup>-\<^sup>4\<^sup>6\<close>, the row is counted and the binary price is 1.
\<close>

theorem binaryoption_pays_at_strike:
  "round64 (1051 / 10) = 3697877506536243 / 35184372088832 \<and>
   prices_f64 strike_rounding_parameters zero_draws =
     Inr [replicate 6 (3697877506536243 / 35184372088832)] \<and>
   sum_list (replicate 6 (3697877506536243 / 35184372088832 :: real)) / 6 =
     3697877506536243 / 35184372088832 \<and>
   payoffs_Asian_f64 [replicate 6 (3697877506536243 / 35184372088832)]
     (3697877506536243 / 35184372088832) = Inr [1 / 70368744177664] \<and>
   binaryoption_f64 [replicate 6 (3697877506536243 / 35184372088832)]
     (3697877506536243 / 35184372088832) 1 0 6 = Inr 1"
proof (intro conjI)
  have lit: "f64 (1051 / 10) = Inr (3697877506536243 / 35184372088832)"
    by (rule f64_eval [where e = 6 and k = 7395755013072486]) (simp_all add: rne_def Let_def)
  then show "round64 (1051 / 10) = 3697877506536243 / 35184372088832"
    by (auto dest: f64_eq_Inr)
  have t0: "f64 (3697877506536243 / 35184372088832) = Inr (3697877506536243 / 35184372088832)"
    by (rule f64_eval [where e = "6" and k = 7395755013072486]) (simp_all add: rne_def Let_def)
  have t1: "f64 (3697877506536243 / 17592186044416) = Inr (3697877506536243 / 17592186044416)"
    by (rule f64_eval [where e = "7" and k = 7395755013072486]) (simp_all add: rne_def Let_def)
  have t2: "f64 (11093632519608729 / 35184372088832) = Inr (1386704064951091 / 4398046511104)"
    by (rule f64_eval [where e = "8" and k = 5546816259804364]) (simp_all add: rne_def Let_def)
  have t3: "f64 (14791510026144971 / 35184372088832) = Inr (3697877506536243 / 8796093022208)"
    by (rule f64_eval [where e = "8" and k = 7395755013072486]) (simp_all add: rne_def Let_def)
  have t4: "f64 (18489387532681215 / 35184372088832) = Inr (1051 / 2)"
    by (rule f64_eval [where e = "9" and k = 4622346883170304]) (simp_all add: rne_def Let_def)
  have t5: "f64 (22187265039217459 / 35184372088832) = Inr (5546816259804365 / 8796093022208)"
    by (rule f64_eval [where e = "9" and k = 5546816259804365]) (simp_all add: rne_def Let_def)
  have tm: "f64 (5546816259804365 / 52776558133248) = Inr (7395755013072487 / 70368744177664)"
    by (rule f64_eval [where e = "6" and k = 7395755013072487]) (simp_all add: rne_def Let_def)
  have td: "f64 (1 / 70368744177664) = Inr (1 / 70368744177664)"
    by (rule f64_eval [where e = "- 46" and k = 4503599627370496]) (simp_all add: rne_def Let_def)
  show "prices_f64 strike_rounding_parameters zero_draws =
     Inr [replicate 6 (3697877506536243 / 35184372088832)]"
    by (simp add: prices_f64_def strike_rounding_parameters_def dt_f64_def random_normal_def
        zero_draws_def upt_rec ratio_matrix_f64_def ratio_f64_def drift_f64_def
        scale_cumprod_f64_def cumprod_f64_def replicate_6 t0)
  show "sum_list (replicate 6 (3697877506536243 / 35184372088832 :: real)) / 6 =
     3697877506536243 / 35184372088832"
    by (simp add: replicate_6)
  show a: "payoffs_Asian_f64 [replicate 6 (3697877506536243 / 35184372088832)]
     (3697877506536243 / 35184372088832) = Inr [1 / 70368744177664]"
    by (simp add: payoffs_Asian_f64_def mean_axis1_f64_def np_mean_f64_def
        pairwise_sum_f64_short replicate_6 t0 t1 t2 t3 t4 t5 tm td)
  show "binaryoption_f64 [replicate 6 (3697877506536243 / 35184372088832)]
     (3697877506536243 / 35184372088832) 1 0 6 = Inr 1"
    by (simp add: binaryoption_f64_def a binarypayoffs_f64_def)
qed

text \<open>
  Claim C9, as it holds of the float64 computation. For a price matrix of \<open>N \<ge> 1\<close> rows
  and a strike price that is a float64 value, either the result is not finite, or a row is
  counted exactly when its mean as \<^verbatim>\<open>np.mean\<close> computes it, \<open>m\<^sub>i\<close>, is strictly greater
  than the strike price (its Asian payoff \<open>max 0 (round64 (m\<^sub>i - K))\<close> is then not zero),
  and the price is the number of counted rows divided by \<open>N\<close>, rounded, times the
  discount factor \<open>round64 (exp (round64 (- r * T)))\<close>, rounded. The statistic is the mean
  of the path, not its final price.
\<close>

theorem binaryoption_f64_formula:
  assumes "round64 K = K" and "P \<noteq> []"
  shows "binaryoption_f64 P K (int (length P)) r T = Inl NonFinite \<or>
    (\<exists>ms a d. mean_axis1_f64 P = Inr ms \<and> length ms = length P \<and>
       payoffs_Asian_f64 P K = Inr a \<and> length a = length P \<and>
       (\<forall>i < length P. np_mean_f64 (P ! i) = Inr (ms ! i) \<and>
          a ! i = max 0 (round64 (ms ! i - K)) \<and> (a ! i \<noteq> 0 \<longleftrightarrow> K < ms ! i)) \<and>
       discount_f64 r T = Inr d \<and> d = round64 (exp (round64 (- r * T))) \<and>
       binaryoption_f64 P K (int (length P)) r T =
         Inr (round64 (round64 (real (length (filter (\<lambda>m. K < m) ms)) / real (length P)) * d)))"
proof (cases "binaryoption_f64 P K (int (length P)) r T")
  case (Inl e)
  from assms(2) have "int (length P) \<noteq> 0" by simp
  from this Inl have "e = NonFinite" by (rule binaryoption_f64_eq_Inl)
  with Inl show ?thesis by simp
next
  case (Inr v)
  then obtain a b d where a: "payoffs_Asian_f64 P K = Inr a"
    and b: "binarypayoffs_f64 a (int (length P)) = Inr b"
    and d: "discount_f64 r T = Inr d" and v: "f64 (b * d) = Inr v"
    by (auto simp add: binaryoption_f64_def then_f64_eq_Inr)
  from a obtain ms where ms: "mean_axis1_f64 P = Inr ms"
    and a': "a = map (\<lambda>m. max 0 (round64 (m - K))) ms"
    by (auto dest: payoffs_Asian_f64_eq_Inr)
  from ms have len: "length ms = length P"
    and grid: "\<And>m. m \<in> set ms \<Longrightarrow> \<exists>x. m = round64 x"
    by (rule mean_axis1_f64_eq_Inr)+
  from ms have mm: "map_f64 np_mean_f64 P = Inr ms"
    by (simp add: mean_axis1_f64_def split: if_splits)
  have cnt: "length (filter (\<lambda>x. x \<noteq> 0) a) = length (filter (\<lambda>m. K < m) ms)"
    unfolding a' using assms(1) grid by (rule count_nonzero_Asian_payoffs)
  from b assms(2) have "f64 (real (length (filter (\<lambda>m. K < m) ms)) / real (length P)) = Inr b"
    by (simp add: binarypayoffs_f64_def cnt)
  then have b': "b = round64 (real (length (filter (\<lambda>m. K < m) ms)) / real (length P))"
    by (rule f64_eq_Inr)
  from d have d': "d = round64 (exp (round64 (- r * T)))"
    by (auto simp add: discount_f64_def then_f64_eq_Inr dest: f64_eq_Inr)
  from v have v': "v = round64 (b * d)" by (rule f64_eq_Inr)
  have rows: "\<forall>i < length P. np_mean_f64 (P ! i) = Inr (ms ! i) \<and>
          a ! i = max 0 (round64 (ms ! i - K)) \<and> (a ! i \<noteq> 0 \<longleftrightarrow> K < ms ! i)"
  proof (intro allI impI conjI)
    fix i assume i: "i < length P"
    from mm i show "np_mean_f64 (P ! i) = Inr (ms ! i)" by (rule map_f64_nth)
    from i len show ai: "a ! i = max 0 (round64 (ms ! i - K))" by (simp add: a')
    from i len have "ms ! i \<in> set ms" by simp
    then obtain x where "ms ! i = round64 x" using grid by blast
    with assms(1) show "a ! i \<noteq> 0 \<longleftrightarrow> K < ms ! i"
      unfolding ai by (rule Asian_payoff_nonzero_iff)
  qed
  have la: "length a = length P" by (simp add: a' len)
  from Inr have "binaryoption_f64 P K (int (length P)) r T =
      Inr (round64 (round64 (real (length (filter (\<lambda>m. K < m) ms)) / real (length P)) * d))"
    by (simp add: v' b')
  with ms len a la rows d d' show ?thesis by blast
qed

theorem binaryoption_f64_formula_witness:
  "binaryoption_f64 [[100, 120], [90, 100]] 105 2 0 1 = Inr (1 / 2)"
proof -
  let ?P = "[[100, 120], [90, 100 :: real]]"
  have K: "round64 (105 :: real) = 105"
    using round64_of_int [of 105] by simp
  have v: "binaryoption_f64 ?P 105 (int (length ?P)) 0 1 = Inr (1 / 2)"
    by (simp add: binaryoption_f64_def binarypayoffs_f64_def payoffs_Asian_f64_def
        mean_axis1_f64_def np_mean_f64_def pairwise_sum_f64_short f64_numeral f64_neg_numeral
        f64_half)
  have "?P \<noteq> []" by simp
  from binaryoption_f64_formula [OF K this, of 0 1] v show ?thesis by simp
qed

section \<open>The simulated prices in float64\<close>

lemma f64_eq_Inr_finite: "f64 x = Inr y \<Longrightarrow> \<bar>y\<bar> < 2 ^ 1024"
  by (simp add: f64_def split: if_splits)

lemma f64_eq_Inr_nonneg: "f64 x = Inr y \<Longrightarrow> 0 \<le> x \<Longrightarrow> 0 \<le> y"
  by (auto dest!: f64_eq_Inr intro: round64_nonneg)

lemma drift_f64_eq_Inl: "drift_f64 r s d = Inl e \<Longrightarrow> e = NonFinite"
  by (auto simp add: drift_f64_def then_f64_eq_Inl dest: f64_eq_Inl)

lemma ratio_f64_eq_Inl: "ratio_f64 r s d z = Inl e \<Longrightarrow> e = NonFinite"
  by (auto simp add: ratio_f64_def then_f64_eq_Inl split: if_splits
      dest: f64_eq_Inl drift_f64_eq_Inl)

lemma ratio_f64_eq_Inr: "ratio_f64 r s d z = Inr q \<Longrightarrow> 0 \<le> q"
  by (auto simp add: ratio_f64_def then_f64_eq_Inr split: if_splits
      intro: f64_eq_Inr_nonneg)

lemma cumprod_from_f64_eq_Inl: "cumprod_from_f64 a xs = Inl e \<Longrightarrow> e = NonFinite"
  by (induction xs arbitrary: a) (auto simp add: then_f64_eq_Inl dest: f64_eq_Inl)

lemma cumprod_from_f64_eq_Inr:
  "cumprod_from_f64 a xs = Inr ys \<Longrightarrow> 0 \<le> a \<Longrightarrow> \<forall>x \<in> set xs. 0 \<le> x \<Longrightarrow>
     length ys = length xs \<and> (\<forall>y \<in> set ys. 0 \<le> y)"
proof (induction xs arbitrary: a ys)
  case Nil
  then show ?case by simp
next
  case (Cons x xs)
  from Cons.prems(1) obtain y ys' where y: "f64 (a * x) = Inr y"
    and ys': "cumprod_from_f64 y xs = Inr ys'" and ys: "ys = y # ys'"
    by (auto simp add: then_f64_eq_Inr)
  from Cons.prems(2,3) have "0 \<le> a * x" by simp
  with y have y0: "0 \<le> y" by (rule f64_eq_Inr_nonneg)
  from Cons.prems(3) have "\<forall>x \<in> set xs. 0 \<le> x" by simp
  with Cons.IH [OF ys' y0] ys y0 show ?case by simp
qed

lemma cumprod_f64_eq_Inl: "cumprod_f64 xs = Inl e \<Longrightarrow> e = NonFinite"
  by (auto simp add: cumprod_f64_def then_f64_eq_Inl split: list.splits
      dest: cumprod_from_f64_eq_Inl)

lemma cumprod_f64_eq_Inr:
  assumes "cumprod_f64 xs = Inr ys" and "\<forall>x \<in> set xs. 0 \<le> x"
  shows "length ys = length xs \<and> (\<forall>y \<in> set ys. 0 \<le> y)"
proof (cases xs)
  case Nil
  with assms(1) show ?thesis by (simp add: cumprod_f64_def)
next
  case (Cons x xs')
  with assms(1) obtain ys' where ys': "cumprod_from_f64 x xs' = Inr ys'" and ys: "ys = x # ys'"
    by (auto simp add: cumprod_f64_def then_f64_eq_Inr)
  from assms(2) Cons have "0 \<le> x" "\<forall>x \<in> set xs'. 0 \<le> x" by simp_all
  with cumprod_from_f64_eq_Inr [OF ys'] ys Cons show ?thesis by simp
qed

lemma scale_row_f64_eq_Inr:
  assumes "then_f64 (cumprod_f64 row) (map_f64 (\<lambda>c. f64 (S * c))) = Inr prow"
    and "\<forall>x \<in> set row. 0 \<le> x" and "0 \<le> S"
  shows "length prow = length row \<and> (\<forall>x \<in> set prow. 0 \<le> x \<and> x < 2 ^ 1024)"
proof -
  from assms(1) obtain cs where cs: "cumprod_f64 row = Inr cs"
    and prow: "map_f64 (\<lambda>c. f64 (S * c)) cs = Inr prow"
    by (auto simp add: then_f64_eq_Inr)
  from cumprod_f64_eq_Inr [OF cs assms(2)]
  have len: "length cs = length row" and nonneg: "\<forall>y \<in> set cs. 0 \<le> y" by simp_all
  from prow have l2: "length prow = length cs" by (rule map_f64_length)
  have "0 \<le> x \<and> x < 2 ^ 1024" if "x \<in> set prow" for x
  proof -
    from that obtain i where i: "i < length prow" "x = prow ! i"
      by (auto simp add: in_set_conv_nth)
    with l2 have ic: "i < length cs" by simp
    from map_f64_nth [OF prow ic] i have x: "f64 (S * cs ! i) = Inr x" by simp
    from ic nonneg assms(3) have "0 \<le> S * cs ! i" by simp
    with x have "0 \<le> x" by (rule f64_eq_Inr_nonneg)
    moreover from x have "\<bar>x\<bar> < 2 ^ 1024" by (rule f64_eq_Inr_finite)
    ultimately show ?thesis by simp
  qed
  with l2 len show ?thesis by simp
qed

lemma scale_row_f64_eq_Inl:
  "then_f64 (cumprod_f64 row) (map_f64 (\<lambda>c. f64 (S * c))) = Inl e \<Longrightarrow> e = NonFinite"
  by (auto simp add: then_f64_eq_Inl dest: cumprod_f64_eq_Inl f64_eq_Inl dest!: map_f64_eq_Inl)

lemma prices_f64_cases:
  assumes "0 \<le> spot_price p" and "1 \<le> Time_steps p" and "0 \<le> simulations p"
  shows "prices_f64 p Z = Inl NonFinite \<or>
    (\<exists>P. prices_f64 p Z = Inr P \<and> length P = nat (simulations p) \<and>
       (\<forall>row \<in> set P. length row = nat (Time_steps p) \<and>
          (\<forall>x \<in> set row. 0 \<le> x \<and> x < 2 ^ 1024)))"
proof -
  let ?R = "map (\<lambda>i. map (Z i) [0..<nat (Time_steps p)]) [0..<nat (simulations p)]"
  have R: "random_normal Z (simulations p) (Time_steps p) = Inr ?R"
    using assms by (simp add: random_normal_def)
  show ?thesis
  proof (cases "prices_f64 p Z")
    case (Inl e)
    from assms(2) have M: "Time_steps p \<noteq> 0" by simp
    from Inl consider "f64 (Time p / real_of_int (Time_steps p)) = Inl e"
      | d where "ratio_matrix_f64 (risk_free_rate p) (sigma p) d ?R = Inl e"
      | Q where "scale_cumprod_f64 (spot_price p) Q = Inl e"
      by (auto simp add: prices_f64_def dt_f64_def M R then_f64_eq_Inl split: sum.splits)
    then have "e = NonFinite"
    proof cases
      case 1
      then show ?thesis by (rule f64_eq_Inl)
    next
      case 2
      then show ?thesis
        by (auto simp add: ratio_matrix_f64_def dest!: map_f64_eq_Inl dest: ratio_f64_eq_Inl)
    next
      case 3
      then show ?thesis
        by (auto simp add: scale_cumprod_f64_def dest!: map_f64_eq_Inl dest: scale_row_f64_eq_Inl)
    qed
    with Inl show ?thesis by simp
  next
    case (Inr P)
    then obtain d Q where Q: "ratio_matrix_f64 (risk_free_rate p) (sigma p) d ?R = Inr Q"
      and P: "scale_cumprod_f64 (spot_price p) Q = Inr P"
      by (auto simp add: prices_f64_def R then_f64_eq_Inr split: sum.splits)
    from Q have Q': "map_f64 (map_f64 (ratio_f64 (risk_free_rate p) (sigma p) d)) ?R = Inr Q"
      by (simp add: ratio_matrix_f64_def)
    from P have P': "map_f64 (\<lambda>row. then_f64 (cumprod_f64 row)
        (map_f64 (\<lambda>c. f64 (spot_price p * c)))) Q = Inr P"
      by (simp add: scale_cumprod_f64_def)
    from Q' have lenQ: "length Q = nat (simulations p)"
      by (auto dest: map_f64_length)
    from P' have lenP: "length P = length Q" by (rule map_f64_length)
    have rows: "length row = nat (Time_steps p) \<and> (\<forall>x \<in> set row. 0 \<le> x \<and> x < 2 ^ 1024)"
      if "row \<in> set P" for row
    proof -
      from that obtain i where i: "i < length P" "row = P ! i"
        by (auto simp add: in_set_conv_nth)
      with lenP have iQ: "i < length Q" by simp
      with lenQ have iR: "i < length ?R" by simp
      from map_f64_nth [OF Q' iR]
      have q: "map_f64 (ratio_f64 (risk_free_rate p) (sigma p) d) (?R ! i) = Inr (Q ! i)" .
      from q have lq: "length (Q ! i) = length (?R ! i)" by (rule map_f64_length)
      have "length (?R ! i) = nat (Time_steps p)"
        using iR by simp
      with lq have lq': "length (Q ! i) = nat (Time_steps p)" by simp
      have nonneg: "\<forall>x \<in> set (Q ! i). 0 \<le> x"
      proof
        fix x assume "x \<in> set (Q ! i)"
        then obtain j where j: "j < length (Q ! i)" "x = Q ! i ! j"
          by (auto simp add: in_set_conv_nth)
        with lq have "j < length (?R ! i)" by simp
        from map_f64_nth [OF q this] j show "0 \<le> x"
          by (auto dest: ratio_f64_eq_Inr)
      qed
      from map_f64_nth [OF P' iQ] i
      have "then_f64 (cumprod_f64 (Q ! i)) (map_f64 (\<lambda>c. f64 (spot_price p * c))) = Inr row"
        by simp
      from scale_row_f64_eq_Inr [OF this nonneg assms(1)] lq' show ?thesis by simp
    qed
    from Inr lenP lenQ rows show ?thesis by simp
  qed
qed

section \<open>The cells leave the price matrix as it is\<close>

lemma cell_keeps_prices:
  assumes "c \<in> set (evaluator_cells p)" and "c s = Inr s'"
  shows "nb_prices s' = nb_prices s"
proof -
  from assms(1) consider "c = asian_cell p" | "c = lookback_cell p" | "c = barrier_cell p"
    | "c = basket_cell" | "c = binary_cell p" | "c = chooser_cell p" | "c = range_cell"
    by (auto simp add: evaluator_cells_def)
  then show ?thesis
  proof cases
    case 1
    with assms(2) show ?thesis
      by (auto simp add: asian_cell_def split: sum.splits prod.splits)
  next
    case 2
    with assms(2) show ?thesis
      by (auto simp add: lookback_cell_def split: sum.splits)
  next
    case 3
    with assms(2) show ?thesis
      by (auto simp add: barrier_cell_def split: sum.splits)
  next
    case 4
    with assms(2) show ?thesis
      by (auto simp add: basket_cell_def split: option.splits sum.splits)
  next
    case 5
    with assms(2) show ?thesis
      by (auto simp add: binary_cell_def split: sum.splits)
  next
    case 6
    with assms(2) show ?thesis
      by (auto simp add: chooser_cell_def split: sum.splits)
  next
    case 7
    with assms(2) show ?thesis
      by (auto simp add: range_cell_def split: sum.splits)
  qed
qed

lemma run_cells_keeps_prices:
  "set cs \<subseteq> set (evaluator_cells p) \<Longrightarrow> run_cells cs s = Inr s' \<Longrightarrow> nb_prices s' = nb_prices s"
proof (induction cs arbitrary: s)
  case Nil
  then show ?case by simp
next
  case (Cons c cs)
  from Cons.prems(2) obtain s1 where s1: "c s = Inr s1" and rest: "run_cells cs s1 = Inr s'"
    by (auto split: sum.splits)
  from Cons.prems(1) have "c \<in> set (evaluator_cells p)" and sub: "set cs \<subseteq> set (evaluator_cells p)"
    by simp_all
  with s1 have "nb_prices s1 = nb_prices s" by (intro cell_keeps_prices)
  with Cons.IH [OF sub rest] show ?case by simp
qed

section \<open>Underflow and overflow of the step factor\<close>

lemma exp_minus_le_half_power: "exp (- real n) \<le> (1 / 2) ^ n"
proof -
  have "(2 :: real) \<le> exp 1" using exp_ge_add_one_self [of 1] by simp
  then have "inverse (exp 1) \<le> inverse (2 :: real)" by (intro le_imp_inverse_le) simp_all
  then have "exp (- 1) \<le> (1 / 2 :: real)" by (simp add: exp_minus inverse_eq_divide)
  then have "exp (- 1) ^ n \<le> (1 / 2 :: real) ^ n" by (intro power_mono) simp_all
  moreover have "exp (- real n) = exp (- 1) ^ n"
    using exp_of_nat_mult [of n "- 1 :: real"] by simp
  ultimately show ?thesis by simp
qed

lemma half_power_Suc: "(1 / 2 :: real) ^ Suc n = 2 powi (- int n) / 2"
  by (simp add: power_int_minus power_one_over inverse_eq_divide)

lemma f64_exp_underflow:
  assumes "x \<le> - 1075"
  shows "f64 (exp x) = Inr 0"
proof -
  define n :: nat where "n = 1074"
  have n: "int n = 1074" "real (Suc n) = 1075" by (simp_all add: n_def)
  from assms have "x \<le> - real (Suc n)" by (simp only: n)
  then have "exp x \<le> exp (- real (Suc n))" by (simp only: exp_le_cancel_iff)
  also have "\<dots> \<le> (1 / 2) ^ Suc n" by (rule exp_minus_le_half_power)
  also have "\<dots> = 2 powi (- int n) / 2" by (rule half_power_Suc)
  also have "\<dots> = min_subnormal / 2" by (simp only: n min_subnormal_def)
  finally have "\<bar>exp x\<bar> \<le> min_subnormal / 2" by simp
  then have "round64 (exp x) = 0" by (rule round64_underflow)
  then show ?thesis by (simp add: f64_def)
qed

lemma two_power_le_exp: "2 ^ n \<le> exp (real n)"
proof -
  have "(2 :: real) \<le> exp 1" using exp_ge_add_one_self [of 1] by simp
  then have "(2 :: real) ^ n \<le> exp 1 ^ n" by (intro power_mono) simp_all
  also have "\<dots> = exp (real n)" using exp_of_nat_mult [of n "1 :: real"] by simp
  finally show ?thesis .
qed

lemma f64_exp_overflow:
  assumes "1024 \<le> x"
  shows "f64 (exp x) = Inl NonFinite"
proof -
  define n :: nat where "n = 1024"
  have n: "real n = 1024" "int n = 1024" by (simp_all add: n_def)
  have p: "(2 :: real) ^ n = 2 powi (int n)" by (rule power_int_of_nat [symmetric])
  have "round64 (of_int 1 * 2 powi (int n)) = of_int 1 * 2 powi (int n)"
    by (rule round64_representable) simp_all
  then have r: "round64 (2 ^ n) = 2 ^ n" by (simp only: p of_int_1 mult_1)
  have "(2 :: real) ^ n \<le> exp (real n)" by (rule two_power_le_exp)
  also have "\<dots> \<le> exp x" using assms by (simp only: n exp_le_cancel_iff)
  finally have "round64 (2 ^ n) \<le> round64 (exp x)" by (rule round64_mono)
  then have "2 ^ n \<le> round64 (exp x)" by (simp only: r)
  then have "2 ^ n \<le> \<bar>round64 (exp x)\<bar>" by simp
  then show ?thesis unfolding n_def by (simp only: f64_def if_True)
qed

text \<open>
  Claim C5 says that every entry of the price matrix is strictly positive and finite for
  every valid parameter set. With \<^verbatim>\<open>sigma = 50\<close> and one step of length 1 the step factor is
  \<open>exp (- 1250)\<close>, which underflows to 0, and the price is 0. With
  \<^verbatim>\<open>risk_free_rate = 1100\<close> the step factor \<open>exp 1100\<close> overflows to \<^verbatim>\<open>inf\<close>.
\<close>

theorem prices_f64_underflow_and_overflow:
  "prices_f64 underflow_parameters zero_draws = Inr [[0]] \<and>
   prices_f64 overflow_parameters zero_draws = Inl NonFinite"
proof
  have e: "f64 (exp (- 1250)) = Inr 0" by (rule f64_exp_underflow) simp
  show "prices_f64 underflow_parameters zero_draws = Inr [[0]]"
    by (simp add: prices_f64_def underflow_parameters_def dt_f64_def random_normal_def
        zero_draws_def upt_rec ratio_matrix_f64_def ratio_f64_def drift_f64_def
        scale_cumprod_f64_def cumprod_f64_def f64_numeral f64_neg_numeral e)
  have e': "f64 (exp 1100) = Inl NonFinite" by (rule f64_exp_overflow) simp
  show "prices_f64 overflow_parameters zero_draws = Inl NonFinite"
    by (simp add: prices_f64_def overflow_parameters_def dt_f64_def random_normal_def
        zero_draws_def upt_rec ratio_matrix_f64_def ratio_f64_def drift_f64_def
        scale_cumprod_f64_def cumprod_f64_def f64_numeral f64_neg_numeral e')
qed

lemma prices_f64_flat: "prices_f64 flat_parameters zero_draws = Inr [[100, 100], [100, 100]]"
  by (simp add: prices_f64_def flat_parameters_def dt_f64_def random_normal_def
      zero_draws_def upt_rec ratio_matrix_f64_def ratio_f64_def drift_f64_def
      scale_cumprod_f64_def cumprod_f64_def f64_numeral)

lemma flat_Asian: "payoffs_Asian_f64 [[100, 100], [100, 100]] 105 = Inr [0, 0]"
  by (simp add: payoffs_Asian_f64_def mean_axis1_f64_def np_mean_f64_def
      pairwise_sum_f64_short f64_numeral f64_neg_numeral)

lemma flat_pricing: "pricing_result_f64 [0, 0] 0 2 2 = Inr (0, 0, 0)"
  by (simp add: pricing_result_f64_def Asian_Option_call_price_f64_def np_mean_f64_def
      pairwise_sum_f64_short var_matrix_f64_def variance_f64_def standard_error_f64_def)

lemma flat_lookback_call: "lookbackpayoffofcall_f64 [[100, 100], [100, 100]] 105 2 0 2 = Inr 0"
  by (simp add: lookbackpayoffofcall_f64_def payoffs_lookback_call_f64_def amax_axis1_def
      Average_Max_Price_f64_def pairwise_sum_f64_short f64_numeral f64_neg_numeral)

lemma flat_lookback_put: "lookbackpayoffofput_f64 [[100, 100], [100, 100]] 105 2 0 2 = Inr 5"
  by (simp add: lookbackpayoffofput_f64_def payoffs_lookback_put_f64_def amax_axis1_def
      Average_Min_Price_f64_def pairwise_sum_f64_short f64_numeral f64_neg_numeral)

lemma flat_Barrier_payoffs:
  "payoffs_Barrier_f64 [[100, 100], [100, 100]] 99 = Inr [[1, 1], [1, 1]]"
  by (simp add: payoffs_Barrier_f64_def f64_numeral)

lemma flat_Barrier_rows: "Barrier_rows_f64 [[1, 1], [1, 1]] = [0, 1]"
  by (simp add: Barrier_rows_f64_def upt_rec)

lemma flat_Barrier: "Barrier_option_price_f64 [[100, 100], [100, 100]] 99 2 0 2 = Inr 1"
  by (simp add: Barrier_option_price_f64_def flat_Barrier_payoffs Barrier_total_f64_def
      flat_Barrier_rows f64_numeral)

lemma flat_Basket: "Basket_Option_price_f64 0 1 = Inr (1 / 2)"
  by (simp add: Basket_Option_price_f64_def f64_half)

lemma flat_binary: "binaryoption_f64 [[100, 100], [100, 100]] 105 2 0 2 = Inr 0"
  by (simp add: binaryoption_f64_def flat_Asian binarypayoffs_f64_def)

lemma upt_2: "[0..<2] = [0, 1]"
  by (simp add: upt_rec)

lemma flat_chooser: "chooser_option_price_f64 [[100, 100], [100, 100]] 105 2 = Inr 5"
  by (simp add: chooser_option_price_f64_def choosercallpayoffs_f64_def
      chooserputpayoffs_f64_def upt_2 f64_numeral f64_neg_numeral)

lemma flat_percentile_95: "percentileofscore_f64 [[100, 100], [100, 100]] 95 = Inr [0, 0]"
  by (simp add: percentileofscore_f64_def f64_numeral)

lemma flat_percentile_105: "percentileofscore_f64 [[100, 100], [100, 100]] 105 = Inr [100, 100]"
  by (simp add: percentileofscore_f64_def f64_numeral)

lemma run_flat:
  "run_cells (evaluator_cells flat_parameters)
     \<lparr>nb_prices = [[100, 100], [100, 100]], nb_Asian_Option_call_price = None, nb_variance = None,
               nb_standard_error = None, nb_lookbackpayoffofcall = None,
               nb_lookbackpayoffofput = None, nb_Barrier_option_price = None,
               nb_Basket_Option_price = None, nb_binaryoption = None,
               nb_chooser_option_price = None, nb_percentile_of_95 = None,
               nb_percentile_of_105 = None\<rparr> =
   Inr \<lparr>nb_prices = [[100, 100], [100, 100]], nb_Asian_Option_call_price = Some 0, nb_variance = Some 0,
               nb_standard_error = Some 0, nb_lookbackpayoffofcall = Some 0,
               nb_lookbackpayoffofput = Some 5, nb_Barrier_option_price = Some 1,
               nb_Basket_Option_price = Some (1 / 2), nb_binaryoption = Some 0,
               nb_chooser_option_price = Some 5, nb_percentile_of_95 = Some [0, 0],
               nb_percentile_of_105 = Some [100, 100]\<rparr>"
  by (simp add: evaluator_cells_def flat_parameters_def asian_cell_def lookback_cell_def
      barrier_cell_def basket_cell_def binary_cell_def chooser_cell_def range_cell_def
      flat_Asian flat_pricing flat_lookback_call flat_lookback_put flat_Barrier flat_Basket
      flat_binary flat_chooser flat_percentile_95 flat_percentile_105)

text \<open>
  Claim C5, as it holds of the float64 computation. For a positive spot price, a positive
  maturity, a step count \<open>M \<ge> 1\<close> and a simulation count \<open>N \<ge> 0\<close>, whatever the volatility
  and the draws, either the simulation produces a value that is not finite, or it returns a
  matrix of \<open>N\<close> rows of \<open>M\<close> entries, every one of them a finite value that is not negative
  (zero is possible). No evaluator cell assigns or changes \<open>prices\<close>: after any run of
  evaluator cells that ends without exception and with finite results, the matrix is the same.
\<close>

theorem prices_f64_nonnegative_and_kept:
  assumes "0 < spot_price p" and "0 < Time p" and "1 \<le> Time_steps p" and "0 \<le> simulations p"
  shows "prices_f64 p Z = Inl NonFinite \<or>
    (\<exists>s. simulate_cell p Z = Inr s \<and> prices_f64 p Z = Inr (nb_prices s) \<and>
       length (nb_prices s) = nat (simulations p) \<and>
       (\<forall>row \<in> set (nb_prices s). length row = nat (Time_steps p) \<and>
          (\<forall>x \<in> set row. 0 \<le> x \<and> x < 2 ^ 1024)) \<and>
       (\<forall>cs s'. set cs \<subseteq> set (evaluator_cells p) \<longrightarrow> run_cells cs s = Inr s' \<longrightarrow>
          nb_prices s' = nb_prices s))"
proof -
  from assms(1) have "0 \<le> spot_price p" by simp
  from prices_f64_cases [OF this assms(3,4), of Z]
  show ?thesis
  proof
    assume "prices_f64 p Z = Inl NonFinite"
    then show ?thesis ..
  next
    assume "\<exists>P. prices_f64 p Z = Inr P \<and> length P = nat (simulations p) \<and>
       (\<forall>row \<in> set P. length row = nat (Time_steps p) \<and>
          (\<forall>x \<in> set row. 0 \<le> x \<and> x < 2 ^ 1024))"
    then obtain P where P: "prices_f64 p Z = Inr P" "length P = nat (simulations p)"
      "\<forall>row \<in> set P. length row = nat (Time_steps p) \<and>
          (\<forall>x \<in> set row. 0 \<le> x \<and> x < 2 ^ 1024)"
      by blast
    from P(1) obtain s where s: "simulate_cell p Z = Inr s" "nb_prices s = P"
      by (simp add: simulate_cell_def)
    have kept: "\<forall>cs s'. set cs \<subseteq> set (evaluator_cells p) \<longrightarrow> run_cells cs s = Inr s' \<longrightarrow>
          nb_prices s' = nb_prices s"
      using run_cells_keeps_prices by blast
    from s P kept show ?thesis by blast
  qed
qed

theorem prices_f64_nonnegative_and_kept_witness:
  "\<exists>s s'. simulate_cell flat_parameters zero_draws = Inr s \<and>
      nb_prices s = [[100, 100], [100, 100]] \<and>
      run_cells (evaluator_cells flat_parameters) s = Inr s' \<and>
      nb_prices s' = [[100, 100], [100, 100]] \<and> nb_chooser_option_price s' = Some 5"
proof -
  have v: "0 < spot_price flat_parameters" "0 < Time flat_parameters"
    "1 \<le> Time_steps flat_parameters" "0 \<le> simulations flat_parameters"
    by (simp_all add: flat_parameters_def)
  from prices_f64_nonnegative_and_kept [OF v, of zero_draws]
  obtain s where s: "simulate_cell flat_parameters zero_draws = Inr s"
    and kept: "\<forall>cs s'. set cs \<subseteq> set (evaluator_cells flat_parameters) \<longrightarrow>
        run_cells cs s = Inr s' \<longrightarrow> nb_prices s' = nb_prices s"
    by (auto simp add: prices_f64_flat)
  from s have eq: "s = \<lparr>nb_prices = [[100, 100], [100, 100]], nb_Asian_Option_call_price = None, nb_variance = None,
               nb_standard_error = None, nb_lookbackpayoffofcall = None,
               nb_lookbackpayoffofput = None, nb_Barrier_option_price = None,
               nb_Basket_Option_price = None, nb_binaryoption = None,
               nb_chooser_option_price = None, nb_percentile_of_95 = None,
               nb_percentile_of_105 = None\<rparr>"
    by (simp add: simulate_cell_def prices_f64_flat)
  obtain s' where s': "run_cells (evaluator_cells flat_parameters) s = Inr s'"
    and c: "nb_chooser_option_price s' = Some 5"
    unfolding eq run_flat by simp
  from kept s' have "nb_prices s' = nb_prices s" by blast
  with eq have "nb_prices s' = [[100, 100], [100, 100]]" by simp
  with s s' c eq show ?thesis by auto
qed

section \<open>Barrier option: the product of the payoffs of a row\<close>

lemma f64_two_powi:
  assumes "- 1074 \<le> j" and "j \<le> 0"
  shows "f64 (2 powi j) = Inr (2 powi j)"
proof -
  have r: "round64 (2 powi j) = 2 powi j"
    using round64_representable [of 1 j] assms(1) by simp
  have "(2 :: real) powi j \<le> 2 powi 0" using assms(2) by (rule two_powi_le)
  then have "(2 :: real) powi j \<le> 1" by simp
  moreover have "(0 :: real) < 2 powi j" by (rule zero_less_power_int) simp
  ultimately have "\<bar>(2 :: real) powi j\<bar> < 2 ^ 1024" by simp
  then show ?thesis by (simp add: f64_def r)
qed

lemma prod_loop_f64_two_powi:
  assumes "a + n * b \<le> 1074"
  shows "prod_loop_f64 (2 powi (- int a)) (replicate n (2 powi (- int b))) =
         Inr (2 powi (- int (a + n * b)))"
  using assms
proof (induction n arbitrary: a)
  case 0
  then show ?case by simp
next
  case (Suc n)
  have "(2 :: real) powi (- int a) * 2 powi (- int b) = 2 powi (- int (a + b))"
    by (simp only: two_powi_add [symmetric]) simp
  moreover have "f64 (2 powi (- int (a + b))) = Inr (2 powi (- int (a + b)))"
    using Suc.prems by (intro f64_two_powi) simp_all
  moreover have "prod_loop_f64 (2 powi (- int (a + b))) (replicate n (2 powi (- int b))) =
      Inr (2 powi (- int (a + b + n * b)))"
    using Suc.prems by (intro Suc.IH) simp
  ultimately show ?case by (simp add: ac_simps)
qed

lemma prod_loop_f64_append:
  "prod_loop_f64 a (xs @ ys) = then_f64 (prod_loop_f64 a xs) (\<lambda>b. prod_loop_f64 b ys)"
  by (induction xs arbitrary: a) (simp_all add: then_f64_def split: sum.splits)

lemma f64_two_powi_underflow:
  assumes "j \<le> - 1075"
  shows "f64 (2 powi j) = Inr 0"
proof -
  have "(2 :: real) powi j \<le> 2 powi (- 1074 + - 1)" using assms by (intro two_powi_le) simp
  also have "\<dots> = min_subnormal / 2"
    by (simp only: two_powi_add min_subnormal_def) simp
  finally have "\<bar>(2 :: real) powi j\<bar> \<le> min_subnormal / 2" by simp
  then have "round64 (2 powi j) = 0" by (rule round64_underflow)
  then show ?thesis by (simp add: f64_def)
qed

lemma prod_loop_f64_underflow:
  "prod_loop_f64 1 (replicate 24 (1 / 2 ^ 46)) = Inr 0"
proof -
  define x :: real where "x = 2 powi (- int 46)"
  have x: "1 / 2 ^ 46 = x" by (simp add: x_def power_int_minus inverse_eq_divide)
  have one: "(1 :: real) = 2 powi (- int 0)" by simp
  have "(24 :: nat) = Suc 23" by simp
  then have "replicate 24 x = replicate (Suc 23) x" by (rule arg_cong)
  then have "replicate 24 x = replicate 23 x @ [x]"
    by (simp only: replicate_Suc replicate_append_same)
  moreover have "prod_loop_f64 (2 powi (- int 0)) (replicate 23 x) = Inr (2 powi (- int (0 + 23 * 46)))"
    unfolding x_def by (rule prod_loop_f64_two_powi) simp
  moreover have "(2 :: real) powi (- int (0 + 23 * 46)) * x = 2 powi (- 1104)"
    unfolding x_def by (simp only: two_powi_add [symmetric]) simp
  moreover have "f64 (2 powi (- 1104)) = Inr 0"
    by (rule f64_two_powi_underflow) simp
  ultimately have "prod_loop_f64 (2 powi (- int 0)) (replicate 24 x) = Inr 0"
    by (simp only: prod_loop_f64_append then_f64_Inr prod_loop_f64.simps)
  then show ?thesis
    unfolding x by simp
qed

lemma replicate_24:
  "replicate 24 x = [x, x, x, x, x, x, x, x, x, x, x, x, x, x, x, x, x, x, x, x, x, x, x, x]"
  by (simp add: numeral_eq_Suc)

text \<open>
  Claim C2 says that a row is knocked out exactly when its payoff series contains a zero,
  and the comment in the cell says that the rows kept are those in which no payoff hit
  zero. The cell tests \<^verbatim>\<open>np.prod(payoffs, axis=1) != 0\<close>. With
  \<^verbatim>\<open>spot_price = 99.00000000000001\<close>, 24 time steps of length 1 and neither drift nor
  volatility, every price of the one row is \<open>99 + 2\<^sup>-\<^sup>4\<^sup>6\<close>, above the barrier price 99, and
  every payoff is \<open>2\<^sup>-\<^sup>4\<^sup>6\<close>: the series contains no zero. The product of the 24 payoffs,
  \<open>2\<^sup>-\<^sup>1\<^sup>1\<^sup>0\<^sup>4\<close>, underflows to 0: the row is knocked out and the barrier price is 0, where
  the claim gives \<open>2\<^sup>-\<^sup>4\<^sup>6\<close>.
\<close>

theorem barrier_row_knocked_out_by_underflow:
  "prices_f64 barrier_underflow_parameters zero_draws = Inr [replicate 24 (99 + 1 / 2 ^ 46)] \<and>
   payoffs_Barrier_f64 [replicate 24 (99 + 1 / 2 ^ 46)] 99 = Inr [replicate 24 (1 / 2 ^ 46)] \<and>
   0 \<notin> set (replicate 24 (1 / 2 ^ 46 :: real)) \<and>
   Barrier_rows_f64 [replicate 24 (1 / 2 ^ 46)] = [] \<and>
   Barrier_option_price_f64 [replicate 24 (99 + 1 / 2 ^ 46)] 99 1 0 24 = Inr 0"
proof (intro conjI)
  have b0: "f64 (6966505673588737 / 70368744177664) = Inr (6966505673588737 / 70368744177664)"
    by (rule f64_eval [where e = "6" and k = 6966505673588737]) (simp_all add: rne_def Let_def)
  have b1: "f64 (1 / 70368744177664) = Inr (1 / 70368744177664)"
    by (rule f64_eval [where e = "- 46" and k = 4503599627370496]) (simp_all add: rne_def Let_def)
  have p: "prod_loop_f64 1 (replicate 24 (1 / 70368744177664)) = Inr 0"
    using prod_loop_f64_underflow by simp
  show "prices_f64 barrier_underflow_parameters zero_draws =
      Inr [replicate 24 (99 + 1 / 2 ^ 46)]"
    by (simp add: prices_f64_def barrier_underflow_parameters_def dt_f64_def random_normal_def
        zero_draws_def upt_rec ratio_matrix_f64_def ratio_f64_def drift_f64_def
        scale_cumprod_f64_def cumprod_f64_def replicate_24 b0)
  show a: "payoffs_Barrier_f64 [replicate 24 (99 + 1 / 2 ^ 46)] 99 =
      Inr [replicate 24 (1 / 2 ^ 46)]"
    by (simp add: payoffs_Barrier_f64_def replicate_24 b1)
  show "0 \<notin> set (replicate 24 (1 / 2 ^ 46 :: real))"
    by simp
  show r: "Barrier_rows_f64 [replicate 24 (1 / 2 ^ 46)] = []"
    by (simp add: Barrier_rows_f64_def p)
  show "Barrier_option_price_f64 [replicate 24 (99 + 1 / 2 ^ 46)] 99 1 0 24 = Inr 0"
    by (simp add: Barrier_option_price_f64_def a [simplified] r [simplified]
        Barrier_total_f64_def)
qed

end
